theory Spec2Isabelle
  imports Complex_Main "HOL-Library.Multiset" "HOL-Library.Signed_Division"
begin

section \<open>Numbers and JavaScript idioms\<close>

text \<open>
  A JavaScript number is modelled as a \<^typ>\<open>real\<close>: rounding, NaN and the infinities
  are not represented. A value that may be \<^verbatim>\<open>undefined\<close> is an \<^typ>\<open>'a option\<close>.
  \<^verbatim>\<open>a || b\<close> on numbers takes \<^verbatim>\<open>b\<close> when \<^verbatim>\<open>a\<close> is falsy, which for
  a real number means zero.
\<close>

definition orElse :: "real \<Rightarrow> real \<Rightarrow> real" where
  "orElse a b = (if a = 0 then b else a)"

text \<open>
  Modelled from the spec: \<^verbatim>\<open>isNumber\<close> is imported from \<^verbatim>\<open>../util\<close>, which is not
  among the sources. The spec speaks of coordinates that are absent and of \<^verbatim>\<open>fx\<close> and
  \<^verbatim>\<open>fy\<close> that are set: the test holds of a field that holds a number.
\<close>

definition isNumber :: "real option \<Rightarrow> bool" where
  "isNumber v = (v \<noteq> None)"

text \<open>
  The value of a numeric field that holds a number. Arithmetic on \<^verbatim>\<open>undefined\<close> gives
  NaN, which the reals do not have: \<^verbatim>\<open>execute\<close> gives every node numeric coordinates
  before \<^verbatim>\<open>run\<close> starts, and the steps keep them numeric.
\<close>

definition num :: "real option \<Rightarrow> real" where
  "num v = the v"

section \<open>Graph data and node degrees\<close>

record edge =
  source :: string
  target :: string

text \<open>
  Modelled from the spec: \<^verbatim>\<open>getDegree\<close> is imported from \<^verbatim>\<open>../util\<close>, which is not
  among the sources. The glossary defines the degree of a node as the count of edges
  incident to it; the function is called as \<^verbatim>\<open>getDegree(n, nodeIdxMap, edges)\<close> and its
  result is indexed by node position. An edge is incident to the node at index \<open>i\<close> when
  the index map sends its source or its target to \<open>i\<close>.
\<close>

definition incident :: "(string \<rightharpoonup> nat) \<Rightarrow> nat \<Rightarrow> edge \<Rightarrow> bool" where
  "incident idx i e = (idx (source e) = Some i \<or> idx (target e) = Some i)"

definition getDegree :: "nat \<Rightarrow> (string \<rightharpoonup> nat) \<Rightarrow> edge list \<Rightarrow> nat list" where
  "getDegree n idx es = map (\<lambda>i. length (filter (incident idx i) es)) [0 ..< n]"

section \<open>gForce.ts: data\<close>

datatype node_size = SizeNumber real | SizePair real real

record node =
  nid :: string
  x :: "real option"
  y :: "real option"
  fx :: "real option"
  fy :: "real option"
  nsize :: "node_size option"

text \<open>An option of type \<^verbatim>\<open>number | Function | undefined\<close>.\<close>

datatype 'a valfun = Undef | NumV real | FunV "'a \<Rightarrow> real"

text \<open>
  \<^verbatim>\<open>nodeSize\<close> and \<^verbatim>\<open>nodeSpacing\<close> are \<^verbatim>\<open>number | number[] | Function | undefined\<close>.
  The function that \<^verbatim>\<open>execute\<close> stores in \<^verbatim>\<open>nodeSize\<close> may return a value that is
  not a number (\<open>None\<close>), see \<open>nodeSizeFunc\<close> below.
\<close>

datatype sizeval = SzUndef | SzNum real | SzArr real real | SzFun "node \<Rightarrow> real option"

datatype spacingval = SpUndef | SpNum real | SpArr "real list" | SpFun "node \<Rightarrow> real"

text \<open>
  \<^verbatim>\<open>getMass\<close> is a callback of the caller, or the default that \<^verbatim>\<open>execute\<close> installs,
  which reads \<^verbatim>\<open>self.degrees\<close> and \<^verbatim>\<open>self.nodeIdxMap\<close> when it is called.
\<close>

datatype massfun = UserMass "node \<Rightarrow> real" | DegreeMass

text \<open>
  The closure of the callback that \<^verbatim>\<open>run\<close> hands to \<^verbatim>\<open>window.setInterval\<close>: its
  counter \<^verbatim>\<open>iter\<close> and the constant \<^verbatim>\<open>maxIteration\<close> it captured.
\<close>

record closure =
  iter :: nat
  capMaxIteration :: real

text \<open>
  A \<^verbatim>\<open>GForceLayout\<close> instance. Callbacks are modelled by a flag (is one set) and a
  counter of their invocations (\<open>layoutEnds\<close>, \<open>tickCalls\<close>). \<open>timers\<close> is the table
  of intervals scheduled on \<^verbatim>\<open>window\<close>, by id, and \<open>nextTimer\<close> the id that the next
  \<^verbatim>\<open>setInterval\<close> returns. \<^verbatim>\<open>nodeMap[id]\<close> is the node object at index
  \<^verbatim>\<open>nodeIdxMap[id]\<close> of \<^verbatim>\<open>nodes\<close>. \<^verbatim>\<open>getCenter\<close> returns an array; the model
  returns \<open>Some (cx, cy, g)\<close> when the array is there and its first three entries are
  numbers, which is all \<^verbatim>\<open>calGravity\<close> tests.
\<close>

record gforce =
  center :: "(real \<times> real) option"
  maxIteration :: real
  edgeStrength :: "edge valfun"
  nodeStrength :: "node valfun"
  coulombDisScale :: real
  damping :: real
  maxSpeed :: real
  minMovement :: real
  interval :: real
  factor :: real
  getMass :: "massfun option"
  getCenter :: "(node \<Rightarrow> nat option \<Rightarrow> (real \<times> real \<times> real) option) option"
  linkDistance :: "edge valfun"
  gravity :: real
  preventOverlap :: bool
  nodeSize :: sizeval
  nodeSpacing :: spacingval
  tick :: bool
  nodes :: "node list option"
  edges :: "edge list option"
  width :: real
  height :: real
  nodeIdxMap :: "string \<rightharpoonup> nat"
  onLayoutEnd :: bool
  degrees :: "nat list"
  timeInterval :: "nat option"
  layoutEnds :: nat
  tickCalls :: nat
  timers :: "(nat \<times> closure) list"
  nextTimer :: nat
  randomCalls :: nat

text \<open>What the code reads from its environment.\<close>

record env =
  hasWindow :: bool
  innerWidth :: real
  innerHeight :: real
  random :: "nat \<Rightarrow> real"

datatype error = TypeError

section \<open>gForce.ts: the forces\<close>

text \<open>
  \<^verbatim>\<open>accArray[k] += v\<close>. \<^verbatim>\<open>run\<close> fills \<^verbatim>\<open>accArray\<close> and \<^verbatim>\<open>velArray\<close> with
  \<open>2 * n\<close> zeros before the forces are computed, so every index written below is in range.
\<close>

definition addAt :: "real list \<Rightarrow> nat \<Rightarrow> real \<Rightarrow> real list" where
  "addAt acc k v = acc[k := acc ! k + v]"

definition degreeMass :: "gforce \<Rightarrow> node \<Rightarrow> real" where
  "degreeMass s d =
     (case nodeIdxMap s (nid d) of
        None \<Rightarrow> 1
      | Some k \<Rightarrow> if k < length (degrees s) then orElse (real (degrees s ! k)) 1 else 1)"

definition massOf :: "gforce \<Rightarrow> node \<Rightarrow> real" where
  "massOf s d =
     (case getMass s of
        None \<Rightarrow> 1
      | Some (UserMass f) \<Rightarrow> f d
      | Some DegreeMass \<Rightarrow> degreeMass s d)"

definition overlapping :: "real \<Rightarrow> real option \<Rightarrow> real option \<Rightarrow> bool" where
  "overlapping vecLength si sj =
     (case (si, sj) of (Some a, Some b) \<Rightarrow> vecLength < (a + b) / 2 | _ \<Rightarrow> False)"

text \<open>
  The body of the inner \<^verbatim>\<open>forEach\<close> of \<^verbatim>\<open>calRepulsive\<close>, for \<open>i < j\<close>;
  \<open>strength\<close> and \<open>sizeOf\<close> are the locals \<^verbatim>\<open>nodeStrength\<close> and \<^verbatim>\<open>nodeSize\<close>.
\<close>

definition repulsePair ::
  "gforce \<Rightarrow> (node \<Rightarrow> real) \<Rightarrow> (node \<Rightarrow> real option) \<Rightarrow> node list \<Rightarrow> nat \<Rightarrow> nat
    \<Rightarrow> real list \<Rightarrow> real list" where
  "repulsePair s strength sizeOf ns i j accArray =
     (let ni = ns ! i; nj = ns ! j;
          massi = massOf s ni;
          vecX = num (x ni) - num (x nj);
          vecY = num (y ni) - num (y nj);
          vecLength = sqrt (vecX * vecX + vecY * vecY) + 0.01;
          nVecLength = (vecLength + 0.1) * coulombDisScale s;
          direX = vecX / vecLength;
          direY = vecY / vecLength;
          param = (((strength ni + strength nj) / 2) * factor s) / (nVecLength * nVecLength);
          massj = massOf s nj;
          a1 = addAt accArray (2 * i) (direX * param);
          a2 = addAt a1 (2 * i + 1) (direY * param);
          a3 = addAt a2 (2 * j) (- (direX * param));
          a4 = addAt a3 (2 * j + 1) (- (direY * param))
      in if preventOverlap s \<and> overlapping vecLength (sizeOf ni) (sizeOf nj)
         then (let paramOverlap = (strength ni + strength nj) / 2 / (vecLength * vecLength);
                   b1 = addAt a4 (2 * i) ((direX * paramOverlap) / massi);
                   b2 = addAt b1 (2 * i + 1) ((direY * paramOverlap) / massi);
                   b3 = addAt b2 (2 * j) (- ((direX * paramOverlap) / massj))
               in addAt b3 (2 * j + 1) (- ((direY * paramOverlap) / massj)))
         else a4)"

definition repulseAll ::
  "gforce \<Rightarrow> (node \<Rightarrow> real) \<Rightarrow> (node \<Rightarrow> real option) \<Rightarrow> real list \<Rightarrow> node list \<Rightarrow> real list" where
  "repulseAll s strength sizeOf accArray ns =
     foldl (\<lambda>acc i.
        foldl (\<lambda>acc' j. if i \<ge> j then acc' else repulsePair s strength sizeOf ns i j acc')
              acc [0 ..< length ns])
       accArray [0 ..< length ns]"

text \<open>
  \<^verbatim>\<open>calRepulsive\<close>. With fewer than two nodes no pair is visited. Otherwise the first
  pair calls \<^verbatim>\<open>nodeStrength\<close> and, when \<^verbatim>\<open>preventOverlap\<close> is set, \<^verbatim>\<open>nodeSize\<close>:
  a field that holds no function there raises a TypeError.
\<close>

definition calRepulsive :: "gforce \<Rightarrow> real list \<Rightarrow> node list \<Rightarrow> error + real list" where
  "calRepulsive s accArray ns =
     (if length ns < 2 then Inr accArray
      else (case nodeStrength s of
              FunV strength \<Rightarrow>
                (if preventOverlap s
                 then (case nodeSize s of
                         SzFun sizeOf \<Rightarrow> Inr (repulseAll s strength sizeOf accArray ns)
                       | _ \<Rightarrow> Inl TypeError)
                 else Inr (repulseAll s strength (\<lambda>_. None) accArray ns))
            | _ \<Rightarrow> Inl TypeError))"

text \<open>
  What one pair adds to the accumulator entry \<open>k\<close>: the entry after the pair's body minus
  the entry before it.
\<close>

definition contribution ::
  "gforce \<Rightarrow> (node \<Rightarrow> real) \<Rightarrow> (node \<Rightarrow> real option) \<Rightarrow> node list \<Rightarrow> nat \<Rightarrow> nat
    \<Rightarrow> real list \<Rightarrow> nat \<Rightarrow> real" where
  "contribution s strength sizeOf ns i j accArray k =
     repulsePair s strength sizeOf ns i j accArray ! k - accArray ! k"

text \<open>
  The condition under which the pair's body adds the overlap correction:
  \<^verbatim>\<open>preventOverlap && vecLength < (nodeSize(ni) + nodeSize(nj)) / 2\<close>.
\<close>

definition overlapApplies :: "gforce \<Rightarrow> (node \<Rightarrow> real option) \<Rightarrow> node \<Rightarrow> node \<Rightarrow> bool" where
  "overlapApplies s sizeOf ni nj =
     (preventOverlap s \<and>
      overlapping (sqrt ((num (x ni) - num (x nj)) * (num (x ni) - num (x nj))
                       + (num (y ni) - num (y nj)) * (num (y ni) - num (y nj))) + 0.01)
                  (sizeOf ni) (sizeOf nj))"

text \<open>\<^verbatim>\<open>nodeMap[id]\<close>: the node object registered under the id, if any.\<close>

definition nodeMap :: "gforce \<Rightarrow> node list \<Rightarrow> string \<Rightarrow> node option" where
  "nodeMap s ns k =
     (case nodeIdxMap s k of
        None \<Rightarrow> None
      | Some i \<Rightarrow> if i < length ns then Some (ns ! i) else None)"

text \<open>
  The body of the \<^verbatim>\<open>forEach\<close> of \<^verbatim>\<open>calAttractive\<close>. Reading \<^verbatim>\<open>.x\<close> of a node
  that \<^verbatim>\<open>nodeMap\<close> does not know raises a TypeError.
\<close>

definition attractEdge ::
  "gforce \<Rightarrow> (edge \<Rightarrow> real) \<Rightarrow> (edge \<Rightarrow> real) \<Rightarrow> node list \<Rightarrow> real list \<Rightarrow> edge
    \<Rightarrow> error + real list" where
  "attractEdge s distance strength ns accArray e =
     (case (nodeMap s ns (source e), nodeMap s ns (target e),
            nodeIdxMap s (source e), nodeIdxMap s (target e)) of
        (Some sourceNode, Some targetNode, Some sourceIdx, Some targetIdx) \<Rightarrow>
          (let vecX = num (x targetNode) - num (x sourceNode);
               vecY = num (y targetNode) - num (y sourceNode);
               vecLength = sqrt (vecX * vecX + vecY * vecY) + 0.01;
               direX = vecX / vecLength;
               direY = vecY / vecLength;
               len = orElse (distance e) 1;
               diff = len - vecLength;
               param = diff * strength e;
               massSource = massOf s sourceNode;
               massTarget = massOf s targetNode;
               a1 = addAt accArray (2 * sourceIdx) (- ((direX * param) / massSource));
               a2 = addAt a1 (2 * sourceIdx + 1) (- ((direY * param) / massSource));
               a3 = addAt a2 (2 * targetIdx) ((direX * param) / massTarget)
           in Inr (addAt a3 (2 * targetIdx + 1) ((direY * param) / massTarget)))
      | _ \<Rightarrow> Inl TypeError)"

fun attractAll ::
  "gforce \<Rightarrow> (edge \<Rightarrow> real) \<Rightarrow> (edge \<Rightarrow> real) \<Rightarrow> node list \<Rightarrow> real list \<Rightarrow> edge list
    \<Rightarrow> error + real list" where
  "attractAll s distance strength ns accArray [] = Inr accArray"
| "attractAll s distance strength ns accArray (e # es) =
     (case attractEdge s distance strength ns accArray e of
        Inl err \<Rightarrow> Inl err
      | Inr acc \<Rightarrow> attractAll s distance strength ns acc es)"

text \<open>
  \<^verbatim>\<open>calAttractive\<close>. The first edge reads the two endpoints and then calls
  \<^verbatim>\<open>linkDistance\<close> and \<^verbatim>\<open>edgeStrength\<close>, which must hold functions.
\<close>

definition calAttractive :: "gforce \<Rightarrow> node list \<Rightarrow> real list \<Rightarrow> edge list \<Rightarrow> error + real list" where
  "calAttractive s ns accArray es =
     (if es = [] then Inr accArray
      else (case (linkDistance s, edgeStrength s) of
              (FunV distance, FunV strength) \<Rightarrow> attractAll s distance strength ns accArray es
            | _ \<Rightarrow> Inl TypeError))"

text \<open>The body of the loop of \<^verbatim>\<open>calGravity\<close> for node \<open>i\<close>, with \<open>c\<close> the center.\<close>

definition gravityAt :: "gforce \<Rightarrow> real \<times> real \<Rightarrow> node list \<Rightarrow> real list \<Rightarrow> nat \<Rightarrow> real list" where
  "gravityAt s c ns accArray i =
     (let n = ns ! i;
          custom = (case getCenter s of
                      None \<Rightarrow> None
                    | Some f \<Rightarrow> f n (if i < length (degrees s) then Some (degrees s ! i) else None));
          vecX = (case custom of None \<Rightarrow> num (x n) - fst c | Some (cx, cy, g) \<Rightarrow> num (x n) - cx);
          vecY = (case custom of None \<Rightarrow> num (y n) - snd c | Some (cx, cy, g) \<Rightarrow> num (y n) - cy);
          grav = (case custom of None \<Rightarrow> gravity s | Some (cx, cy, g) \<Rightarrow> g)
      in if grav = 0 then accArray
         else addAt (addAt accArray (2 * i) (- (grav * vecX))) (2 * i + 1) (- (grav * vecY)))"

definition calGravity :: "gforce \<Rightarrow> real list \<Rightarrow> node list \<Rightarrow> error + real list" where
  "calGravity s accArray ns =
     (if ns = [] then Inr accArray
      else (case center s of
              None \<Rightarrow> Inl TypeError
            | Some c \<Rightarrow> Inr (foldl (gravityAt s c ns) accArray [0 ..< length ns])))"

section \<open>gForce.ts: velocity and position\<close>

text \<open>The body of the \<^verbatim>\<open>forEach\<close> of \<^verbatim>\<open>updateVelocity\<close> for node \<open>i\<close>.\<close>

definition velocityOf :: "gforce \<Rightarrow> real list \<Rightarrow> real \<Rightarrow> nat \<Rightarrow> real \<times> real" where
  "velocityOf s accArray stepInterval i =
     (let param = stepInterval * damping s;
          vx = orElse (accArray ! (2 * i) * param) 0.01;
          vy = orElse (accArray ! (2 * i + 1) * param) 0.01;
          vLength = sqrt (vx * vx + vy * vy)
      in if vLength > maxSpeed s
         then (let param2 = maxSpeed s / vLength in (param2 * vx, param2 * vy))
         else (vx, vy))"

definition updateVelocity ::
  "gforce \<Rightarrow> real list \<Rightarrow> real list \<Rightarrow> real \<Rightarrow> node list \<Rightarrow> real list" where
  "updateVelocity s accArray velArray stepInterval ns =
     foldl (\<lambda>vel i. (vel[2 * i := fst (velocityOf s accArray stepInterval i)])
                        [2 * i + 1 := snd (velocityOf s accArray stepInterval i)])
       velArray [0 ..< length ns]"

definition moveNode :: "real list \<Rightarrow> real \<Rightarrow> nat \<Rightarrow> node \<Rightarrow> node" where
  "moveNode velArray stepInterval i n =
     (if isNumber (fx n) \<and> isNumber (fy n) then n\<lparr>x := fx n, y := fy n\<rparr>
      else (let distX = velArray ! (2 * i) * stepInterval;
                distY = velArray ! (2 * i + 1) * stepInterval
            in n\<lparr>x := Some (num (x n) + distX), y := Some (num (y n) + distY)\<rparr>))"

definition updatePosition :: "real list \<Rightarrow> real \<Rightarrow> node list \<Rightarrow> node list" where
  "updatePosition velArray stepInterval ns =
     map (\<lambda>(i, n). moveNode velArray stepInterval i n) (enumerate 0 ns)"

section \<open>gForce.ts: the timer callback of run\<close>

definition fireLayoutEnd :: "gforce \<Rightarrow> gforce" where
  "fireLayoutEnd s = (if onLayoutEnd s then s\<lparr>layoutEnds := layoutEnds s + 1\<rparr> else s)"

definition clearInterval :: "nat \<Rightarrow> gforce \<Rightarrow> gforce" where
  "clearInterval t s = s\<lparr>timers := filter (\<lambda>(t', _). t' \<noteq> t) (timers s)\<rparr>"

text \<open>\<^verbatim>\<open>window.clearInterval(self.timeInterval)\<close>; it does nothing for \<^verbatim>\<open>undefined\<close>.\<close>

definition clearOwn :: "gforce \<Rightarrow> gforce" where
  "clearOwn s = (case timeInterval s of None \<Rightarrow> s | Some t \<Rightarrow> clearInterval t s)"

text \<open>The three forces, accumulated into a fresh \<^verbatim>\<open>accArray\<close> of zeros.\<close>

definition accumulate :: "gforce \<Rightarrow> node list \<Rightarrow> error + real list" where
  "accumulate s ns =
     (case calRepulsive s (replicate (2 * length ns) 0) ns of
        Inl err \<Rightarrow> Inl err
      | Inr a1 \<Rightarrow>
          (case (case edges s of None \<Rightarrow> Inr a1 | Some es \<Rightarrow> calAttractive s ns a1 es) of
             Inl err \<Rightarrow> Inl err
           | Inr a2 \<Rightarrow> calGravity s a2 ns))"

text \<open>
  The mean distance between the new and the previous positions. For an empty node list
  the source divides zero by zero and the comparison with \<^verbatim>\<open>minMovement\<close> is false.
\<close>

definition movement :: "(real option \<times> real option) list \<Rightarrow> node list \<Rightarrow> real" where
  "movement previousPos ns =
     sum_list (map (\<lambda>(p, n). let vx = num (x n) - num (fst p); vy = num (y n) - num (snd p)
                              in sqrt (vx * vx + vy * vy))
                   (zip previousPos ns))
       / real (length ns)"

text \<open>
  The callback from \<^verbatim>\<open>updateVelocity\<close> on, for the timer \<open>t\<close> with closure \<open>cl\<close>,
  the nodes \<open>ns\<close> and the accumulated forces \<open>acc\<close>.
\<close>

definition advance :: "nat \<Rightarrow> closure \<Rightarrow> gforce \<Rightarrow> node list \<Rightarrow> real list \<Rightarrow> gforce" where
  "advance t cl s ns acc =
     (let stepInterval = max 0.02 (interval s - real (iter cl) * 0.002);
          vel = updateVelocity s acc (replicate (2 * length ns) 0) stepInterval ns;
          previousPos = map (\<lambda>n. (x n, y n)) ns;
          ns' = updatePosition vel stepInterval ns;
          s1 = s\<lparr>nodes := Some ns'\<rparr>;
          s2 = (if tick s1 then s1\<lparr>tickCalls := tickCalls s1 + 1\<rparr> else s1);
          s3 = (if ns' \<noteq> [] \<and> movement previousPos ns' < minMovement s2
                then fireLayoutEnd (clearOwn s2) else s2);
          iter' = iter cl + 1;
          s4 = s3\<lparr>timers := map (\<lambda>(t', c). if t' = t then (t', c\<lparr>iter := iter'\<rparr>) else (t', c))
                                 (timers s3)\<rparr>
      in if real iter' \<ge> capMaxIteration cl then clearOwn (fireLayoutEnd s4) else s4)"

text \<open>
  The callback. It works on the arrays \<^verbatim>\<open>nodes\<close> and \<^verbatim>\<open>edges\<close> that \<^verbatim>\<open>run\<close>
  captured, which are the ones the instance holds (only \<^verbatim>\<open>init\<close> and \<^verbatim>\<open>destroy\<close>
  replace them, and the base class that has \<^verbatim>\<open>init\<close> is not among the sources). A
  TypeError raised by one of the forces leaves the callback before anything of the
  instance has been changed.
\<close>

definition callback :: "nat \<Rightarrow> closure \<Rightarrow> gforce \<Rightarrow> error + gforce" where
  "callback t cl s =
     (case nodes s of
        None \<Rightarrow> Inr s
      | Some ns \<Rightarrow>
          (case accumulate s ns of
             Inl err \<Rightarrow> Inl err
           | Inr acc \<Rightarrow> Inr (advance t cl s ns acc)))"

text \<open>
  The scheduler runs the callback of timer \<open>t\<close> once, when \<open>t\<close> is scheduled. An
  exception that escapes the callback is reported by the host and the timer stays.
\<close>

definition fire :: "nat \<Rightarrow> gforce \<Rightarrow> gforce" where
  "fire t s =
     (case map_of (timers s) t of
        None \<Rightarrow> s
      | Some cl \<Rightarrow> (case callback t cl s of Inl err \<Rightarrow> s | Inr s' \<Rightarrow> s'))"

definition fires :: "nat list \<Rightarrow> gforce \<Rightarrow> gforce" where
  "fires ts s = foldl (\<lambda>s' t. fire t s') s ts"

definition run :: "env \<Rightarrow> gforce \<Rightarrow> gforce" where
  "run e s =
     (if \<not> hasWindow e then s
      else s\<lparr>timers := timers s @ [(nextTimer s, \<lparr>iter = 0, capMaxIteration = maxIteration s\<rparr>)],
             timeInterval := Some (nextTimer s),
             nextTimer := nextTimer s + 1\<rparr>)"

definition stop :: "env \<Rightarrow> gforce \<Rightarrow> gforce" where
  "stop e s =
     (case timeInterval s of
        None \<Rightarrow> s
      | Some t \<Rightarrow> if t \<noteq> 0 \<and> hasWindow e then clearInterval t s else s)"

section \<open>gForce.ts: execute\<close>

definition proccessToFunc :: "'a valfun \<Rightarrow> real option \<Rightarrow> ('a \<Rightarrow> real)" where
  "proccessToFunc v defaultV =
     (let dflt = (case defaultV of None \<Rightarrow> 1 | Some d \<Rightarrow> orElse d 1)
      in case v of
           Undef \<Rightarrow> (\<lambda>d. dflt)
         | NumV r \<Rightarrow> if r = 0 then (\<lambda>d. dflt) else (\<lambda>d. r)
         | FunV f \<Rightarrow> f)"

definition nodeSpacingFunc :: "spacingval \<Rightarrow> node \<Rightarrow> real" where
  "nodeSpacingFunc sp = (case sp of SpNum r \<Rightarrow> (\<lambda>d. r) | SpFun f \<Rightarrow> f | _ \<Rightarrow> (\<lambda>d. 0))"

text \<open>
  The function stored in \<^verbatim>\<open>nodeSize\<close> when \<^verbatim>\<open>preventOverlap\<close> is set. The last
  branch of the source adds \<^verbatim>\<open>nodeSize as number\<close> to the spacing; when \<^verbatim>\<open>nodeSize\<close>
  is a function that sum is not a number.
\<close>

definition nodeSizeFunc :: "sizeval \<Rightarrow> spacingval \<Rightarrow> node \<Rightarrow> real option" where
  "nodeSizeFunc sz sp d =
     (case sz of
        SzArr a b \<Rightarrow> Some ((if a > b then a else b) + nodeSpacingFunc sp d)
      | SzFun f \<Rightarrow> None
      | SzNum r \<Rightarrow>
          if r \<noteq> 0 then Some (r + nodeSpacingFunc sp d)
          else (case nsize d of
                  Some (SizePair a b) \<Rightarrow> Some ((if a > b then a else b) + nodeSpacingFunc sp d)
                | Some (SizeNumber r') \<Rightarrow>
                    if r' \<noteq> 0 then Some (r' + nodeSpacingFunc sp d)
                    else Some (10 + nodeSpacingFunc sp d)
                | None \<Rightarrow> Some (10 + nodeSpacingFunc sp d))
      | SzUndef \<Rightarrow>
          (case nsize d of
             Some (SizePair a b) \<Rightarrow> Some ((if a > b then a else b) + nodeSpacingFunc sp d)
           | Some (SizeNumber r') \<Rightarrow>
               if r' \<noteq> 0 then Some (r' + nodeSpacingFunc sp d)
               else Some (10 + nodeSpacingFunc sp d)
           | None \<Rightarrow> Some (10 + nodeSpacingFunc sp d)))"

text \<open>
  The first \<^verbatim>\<open>forEach\<close> of \<^verbatim>\<open>execute\<close>: a coordinate that is not a number is drawn
  with \<^verbatim>\<open>Math.random\<close>; \<open>k\<close> counts the draws.
\<close>

fun seedNodes :: "env \<Rightarrow> real \<Rightarrow> real \<Rightarrow> nat \<Rightarrow> node list \<Rightarrow> node list \<times> nat" where
  "seedNodes e w h k [] = ([], k)"
| "seedNodes e w h k (n # ns) =
     (let n1 = (if isNumber (x n) then n else n\<lparr>x := Some (random e k * w)\<rparr>);
          k1 = (if isNumber (x n) then k else k + 1);
          n2 = (if isNumber (y n1) then n1 else n1\<lparr>y := Some (random e k1 * h)\<rparr>);
          k2 = (if isNumber (y n1) then k1 else k1 + 1);
          rest = seedNodes e w h k2 ns
      in (n2 # fst rest, snd rest))"

definition indexMap :: "string list \<Rightarrow> (string \<rightharpoonup> nat)" where
  "indexMap ids = foldl (\<lambda>m (i, k). m(k \<mapsto> i)) Map.empty (enumerate 0 ids)"

definition execute :: "env \<Rightarrow> gforce \<Rightarrow> gforce" where
  "execute e s =
     (let s0 = (if timeInterval s \<noteq> None \<and> hasWindow e then clearOwn s else s)
      in case nodes s0 of
           None \<Rightarrow> fireLayoutEnd s0
         | Some ns \<Rightarrow>
             if length ns = 0 then fireLayoutEnd s0
             else
               (let s1 = (if width s0 = 0 \<and> hasWindow e then s0\<lparr>width := innerWidth e\<rparr> else s0);
                    s2 = (if height s1 = 0 \<and> hasWindow e then s1\<lparr>height := innerHeight e\<rparr> else s1);
                    c = (case center s2 of None \<Rightarrow> (width s2 / 2, height s2 / 2) | Some c' \<Rightarrow> c');
                    s3 = s2\<lparr>center := Some c\<rparr>
                in if length ns = 1
                   then fireLayoutEnd
                          (s3\<lparr>nodes := Some [(hd ns)\<lparr>x := Some (fst c), y := Some (snd c)\<rparr>]\<rparr>)
                   else
                     (let seeded = seedNodes e (width s3) (height s3) (randomCalls s3) ns;
                          idx = indexMap (map nid ns);
                          s4 = s3\<lparr>nodes := Some (fst seeded), randomCalls := snd seeded,
                                  nodeIdxMap := idx,
                                  linkDistance := FunV (proccessToFunc (linkDistance s3) (Some 1)),
                                  nodeStrength := FunV (proccessToFunc (nodeStrength s3) (Some 1)),
                                  edgeStrength := FunV (proccessToFunc (edgeStrength s3) (Some 1)),
                                  nodeSize := (if preventOverlap s3
                                               then SzFun (nodeSizeFunc (nodeSize s3) (nodeSpacing s3))
                                               else SzUndef),
                                  degrees := getDegree (length ns) idx
                                               (case edges s3 of None \<Rightarrow> [] | Some es \<Rightarrow> es)\<rparr>;
                          s5 = (if getMass s4 = None then s4\<lparr>getMass := Some DegreeMass\<rparr> else s4)
                      in run e s5)))"

section \<open>gForce.ts: instances on which the timer callback completes\<close>

definition isFunction :: "'a valfun \<Rightarrow> bool" where
  "isFunction v = (case v of FunV f \<Rightarrow> True | _ \<Rightarrow> False)"

text \<open>Both ends of the edge are registered in the index map, with indices below \<open>n\<close>.\<close>

definition knownEdge :: "(string \<rightharpoonup> nat) \<Rightarrow> nat \<Rightarrow> edge \<Rightarrow> bool" where
  "knownEdge idx n e =
     (case (idx (source e), idx (target e)) of
        (Some i, Some j) \<Rightarrow> i < n \<and> j < n
      | _ \<Rightarrow> False)"

text \<open>
  The state in which \<^verbatim>\<open>execute\<close> leaves the instance before it calls \<^verbatim>\<open>run\<close>: the
  strengths and the link distance hold functions, \<^verbatim>\<open>nodeSize\<close> holds one when
  \<^verbatim>\<open>preventOverlap\<close> is set, the center is set, and every edge joins registered nodes.
  On such an instance none of the three forces raises a TypeError.
\<close>

definition ready :: "gforce \<Rightarrow> bool" where
  "ready s =
     (isFunction (nodeStrength s) \<and> isFunction (linkDistance s) \<and> isFunction (edgeStrength s)
      \<and> (preventOverlap s \<longrightarrow> (case nodeSize s of SzFun f \<Rightarrow> True | _ \<Rightarrow> False))
      \<and> center s \<noteq> None
      \<and> (case (nodes s, edges s) of
            (Some ns, Some es) \<Rightarrow> list_all (knownEdge (nodeIdxMap s) (length ns)) es
          | _ \<Rightarrow> True))"

text \<open>Both ends of the edge are ids of nodes of the list.\<close>

definition knownEnds :: "node list \<Rightarrow> edge \<Rightarrow> bool" where
  "knownEnds ns e = (source e \<in> set (map nid ns) \<and> target e \<in> set (map nid ns))"

text \<open>Timer ids handed out so far are below \<open>nextTimer\<close>.\<close>

definition freshTimer :: "gforce \<Rightarrow> bool" where
  "freshTimer s = list_all (\<lambda>(t, c). t < nextTimer s) (timers s)"

text \<open>Node \<open>i\<close> of the instance is pinned to \<open>(a, b)\<close> and lies there.\<close>

definition pinnedAt :: "gforce \<Rightarrow> nat \<Rightarrow> real \<Rightarrow> real \<Rightarrow> bool" where
  "pinnedAt s i a b =
     (case nodes s of
        None \<Rightarrow> False
      | Some ns \<Rightarrow> i < length ns \<and> fx (ns ! i) = Some a \<and> fy (ns ! i) = Some b
                   \<and> x (ns ! i) = Some a \<and> y (ns ! i) = Some b)"

text \<open>The node is pinned and lies at its pinned position.\<close>

definition atRest :: "node \<Rightarrow> bool" where
  "atRest n = (fx n \<noteq> None \<and> fy n \<noteq> None \<and> x n = fx n \<and> y n = fy n)"

definition numeric :: "node \<Rightarrow> bool" where
  "numeric n = (isNumber (x n) \<and> isNumber (y n))"

section \<open>circular.ts: data\<close>

text \<open>
  A node of \<^verbatim>\<open>CircularLayout\<close>. The caller supplies the id; the other fields are
  added by the layout. The node objects are shared between \<^verbatim>\<open>self.nodes\<close> and the
  arrays that the ordering methods return, so such an array is modelled as a list of
  references: a reference is the index of the object in \<^verbatim>\<open>self.nodes\<close>, and
  \<^verbatim>\<open>undefined\<close> is \<open>None\<close>.
\<close>

record cnode =
  cid :: string
  cx :: "real option"
  cy :: "real option"
  degree :: "nat option"
  weight :: "nat option"
  children :: "string list"
  parent :: "string list"

text \<open>
  The option \<^verbatim>\<open>ordering\<close>; \<open>NoOrdering\<close> is \<^verbatim>\<open>null\<close> and every other value, for
  which \<^verbatim>\<open>execute\<close> takes the nodes in their input order.
\<close>

datatype ordering = Topology | TopologyDirected | Degree | NoOrdering

text \<open>
  A \<^verbatim>\<open>CircularLayout\<close> instance. The fields whose names the other instance already
  uses carry the prefix \<open>c_\<close>; the callback \<^verbatim>\<open>onLayoutEnd\<close> is again a flag and a
  counter of its invocations.
\<close>

record circular =
  c_center :: "(real \<times> real) option"
  radius :: "real option"
  startRadius :: "real option"
  endRadius :: "real option"
  startAngle :: real
  endAngle :: real
  clockwise :: bool
  divisions :: real
  ordering :: ordering
  angleRatio :: real
  c_nodes :: "cnode list"
  c_edges :: "edge list"
  c_nodeMap :: "string \<rightharpoonup> nat"
  c_degrees :: "nat list"
  c_width :: real
  c_height :: real
  c_onLayoutEnd :: bool
  c_layoutEnds :: nat

section \<open>circular.ts: helpers\<close>

text \<open>\<^verbatim>\<open>xs[i]\<close> on an array: \<^verbatim>\<open>undefined\<close> out of range.\<close>

definition elemAt :: "'a list \<Rightarrow> nat \<Rightarrow> 'a option" where
  "elemAt xs i = (if i < length xs then Some (xs ! i) else None)"

text \<open>
  The index that \<^verbatim>\<open>initHierarchy\<close> computes for an end of an edge: 0 when the id is
  falsy (the empty string), else \<^verbatim>\<open>nodeMap[id]\<close>.
\<close>

definition endIdx :: "(string \<rightharpoonup> nat) \<Rightarrow> string \<Rightarrow> nat option" where
  "endIdx nm k = (if k = [] then Some 0 else nm k)"

text \<open>
  One edge of \<^verbatim>\<open>initHierarchy\<close>. Reading \<^verbatim>\<open>.children\<close> or \<^verbatim>\<open>.parent\<close> of
  \<^verbatim>\<open>nodes[idx]\<close> raises a TypeError when there is no such node.
\<close>

definition linkEdge :: "(string \<rightharpoonup> nat) \<Rightarrow> bool \<Rightarrow> cnode list \<Rightarrow> edge \<Rightarrow> error + cnode list" where
  "linkEdge nm directed ns e =
     (case (endIdx nm (source e), endIdx nm (target e)) of
        (Some sourceIdx, Some targetIdx) \<Rightarrow>
          if sourceIdx < length ns \<and> targetIdx < length ns
          then (if directed
                then (let ns1 = ns[sourceIdx := (ns ! sourceIdx)
                                     \<lparr>children := children (ns ! sourceIdx) @ [cid (ns ! targetIdx)]\<rparr>]
                      in Inr (ns1[targetIdx := (ns1 ! targetIdx)
                                     \<lparr>parent := parent (ns1 ! targetIdx) @ [cid (ns1 ! sourceIdx)]\<rparr>]))
                else (let ns1 = ns[sourceIdx := (ns ! sourceIdx)
                                     \<lparr>children := children (ns ! sourceIdx) @ [cid (ns ! targetIdx)]\<rparr>]
                      in Inr (ns1[targetIdx := (ns1 ! targetIdx)
                                     \<lparr>children := children (ns1 ! targetIdx) @ [cid (ns1 ! sourceIdx)]\<rparr>])))
          else Inl TypeError
      | _ \<Rightarrow> Inl TypeError)"

fun linkEdges :: "(string \<rightharpoonup> nat) \<Rightarrow> bool \<Rightarrow> cnode list \<Rightarrow> edge list \<Rightarrow> error + cnode list" where
  "linkEdges nm directed ns [] = Inr ns"
| "linkEdges nm directed ns (e # es) =
     (case linkEdge nm directed ns e of
        Inl err \<Rightarrow> Inl err
      | Inr ns' \<Rightarrow> linkEdges nm directed ns' es)"

definition initHierarchy ::
  "cnode list \<Rightarrow> edge list \<Rightarrow> (string \<rightharpoonup> nat) \<Rightarrow> bool \<Rightarrow> error + cnode list" where
  "initHierarchy ns es nm directed =
     linkEdges nm directed (map (\<lambda>n. n\<lparr>children := [], parent := []\<rparr>) ns) es"

definition connect :: "cnode \<Rightarrow> cnode \<Rightarrow> edge list \<Rightarrow> bool" where
  "connect a b es =
     list_ex (\<lambda>e. (cid a = source e \<and> cid b = target e) \<or> (cid b = source e \<and> cid a = target e)) es"

text \<open>
  \<^verbatim>\<open>compareDegree\<close>. A comparison with \<^verbatim>\<open>undefined\<close> is false in JavaScript.
\<close>

definition compareDegree :: "cnode \<Rightarrow> cnode \<Rightarrow> int" where
  "compareDegree a b =
     (case (degree a, degree b) of
        (Some aDegree, Some bDegree) \<Rightarrow>
          if aDegree < bDegree then - 1 else if aDegree > bDegree then 1 else 0
      | _ \<Rightarrow> 0)"

text \<open>
  \<^verbatim>\<open>Array.prototype.sort\<close> with a comparator. The language standard (since ES2019)
  requires the sort to be stable; it is modelled as the stable insertion sort.
\<close>

fun insertBy :: "('a \<Rightarrow> 'a \<Rightarrow> int) \<Rightarrow> 'a \<Rightarrow> 'a list \<Rightarrow> 'a list" where
  "insertBy cmp a [] = [a]"
| "insertBy cmp a (b # bs) = (if cmp a b \<le> 0 then a # b # bs else b # insertBy cmp a bs)"

definition arraySort :: "('a \<Rightarrow> 'a \<Rightarrow> int) \<Rightarrow> 'a list \<Rightarrow> 'a list" where
  "arraySort cmp xs = foldr (insertBy cmp) xs []"

section \<open>circular.ts: the orderings\<close>

text \<open>
  \<^verbatim>\<open>degreeOrdering\<close>: every node gets its \<^verbatim>\<open>degree\<close>, and the references to the
  nodes are sorted with \<^verbatim>\<open>compareDegree\<close>. The result is the updated node list and the
  sorted references.
\<close>

definition degreeOrdering :: "cnode list \<Rightarrow> nat list \<Rightarrow> cnode list \<times> nat option list" where
  "degreeOrdering ns degs =
     (let ns' = map (\<lambda>(i, n). n\<lparr>degree := elemAt degs i\<rparr>) (enumerate 0 ns)
      in (ns', map Some (arraySort (\<lambda>a b. compareDegree (ns' ! a) (ns' ! b)) [0 ..< length ns'])))"

text \<open>
  The state of the loop of \<^verbatim>\<open>topologyOrdering\<close>. \<^verbatim>\<open>pickFlags\<close> is a sparse array
  of booleans.
\<close>

record topo =
  orderedCNodes :: "cnode list"
  resNodes :: "nat option list"
  pickFlags :: "nat \<Rightarrow> bool"
  topK :: nat

text \<open>
  The search through the children of \<^verbatim>\<open>orderedCNodes[k]\<close>: the index of the first
  child of the degree of node \<open>i\<close> that has not been picked. A child that
  \<^verbatim>\<open>nodeMap\<close> does not know has the index \<^verbatim>\<open>undefined\<close>; when it passes the test
  \<^verbatim>\<open>cnodes[childIdx].id\<close> raises a TypeError.
\<close>

fun findChild ::
  "(string \<rightharpoonup> nat) \<Rightarrow> nat list \<Rightarrow> (nat \<Rightarrow> bool) \<Rightarrow> nat \<Rightarrow> nat \<Rightarrow> string list \<Rightarrow> error + nat option" where
  "findChild nm degs pick n i [] = Inr None"
| "findChild nm degs pick n i (c # cs) =
     (case nm c of
        None \<Rightarrow> if elemAt degs i = None then Inl TypeError else findChild nm degs pick n i cs
      | Some childIdx \<Rightarrow>
          if elemAt degs childIdx = elemAt degs i \<and> \<not> pick childIdx
          then (if childIdx < n then Inr (Some childIdx) else Inl TypeError)
          else findChild nm degs pick n i cs)"

text \<open>The \<^verbatim>\<open>while\<close> loop: the first index below \<open>n\<close> that has not been picked.\<close>

definition firstFree :: "(nat \<Rightarrow> bool) \<Rightarrow> nat \<Rightarrow> nat option" where
  "firstFree pick n = List.find (\<lambda>ii. \<not> pick ii) [0 ..< n]"

definition pickNode :: "(string \<rightharpoonup> nat) \<Rightarrow> cnode list \<Rightarrow> nat \<Rightarrow> topo \<Rightarrow> topo" where
  "pickNode nm cnodes j t =
     t\<lparr>orderedCNodes := orderedCNodes t @ [cnodes ! j],
       resNodes := resNodes t @ [nm (cid (cnodes ! j))],
       pickFlags := (pickFlags t)(j := True)\<rparr>"

text \<open>The body of the \<^verbatim>\<open>forEach\<close> of \<^verbatim>\<open>topologyOrdering\<close> for \<open>i \<noteq> 0\<close>.\<close>

definition topoStep ::
  "(string \<rightharpoonup> nat) \<Rightarrow> nat list \<Rightarrow> edge list \<Rightarrow> cnode list \<Rightarrow> nat \<Rightarrow> topo \<Rightarrow> error + topo" where
  "topoStep nm degs es cnodes i t =
     (let n = length cnodes; cnode = cnodes ! i
      in if (i = n - 1 \<or> elemAt degs i \<noteq> elemAt degs (i + 1)
               \<or> connect (orderedCNodes t ! topK t) cnode es)
            \<and> \<not> pickFlags t i
         then Inr ((pickNode nm cnodes i t)\<lparr>topK := topK t + 1\<rparr>)
         else (case findChild nm degs (pickFlags t) n i (children (orderedCNodes t ! topK t)) of
                 Inl err \<Rightarrow> Inl err
               | Inr (Some childIdx) \<Rightarrow> Inr (pickNode nm cnodes childIdx t)
               | Inr None \<Rightarrow>
                   (case firstFree (pickFlags t) n of
                      Some ii \<Rightarrow> Inr (pickNode nm cnodes ii t)
                    | None \<Rightarrow> Inr t)))"

fun topoLoop ::
  "(string \<rightharpoonup> nat) \<Rightarrow> nat list \<Rightarrow> edge list \<Rightarrow> cnode list \<Rightarrow> nat list \<Rightarrow> topo \<Rightarrow> error + topo" where
  "topoLoop nm degs es cnodes [] t = Inr t"
| "topoLoop nm degs es cnodes (i # is) t =
     (case topoStep nm degs es cnodes i t of
        Inl err \<Rightarrow> Inl err
      | Inr t' \<Rightarrow> topoLoop nm degs es cnodes is t')"

text \<open>
  \<^verbatim>\<open>topologyOrdering\<close>. \<^verbatim>\<open>clone(nodes)\<close> copies the nodes, so the hierarchy is built
  on the copies and the result refers to the nodes themselves.
\<close>

definition topologyOrdering ::
  "bool \<Rightarrow> cnode list \<Rightarrow> edge list \<Rightarrow> (string \<rightharpoonup> nat) \<Rightarrow> nat list \<Rightarrow> error + nat option list" where
  "topologyOrdering directed ns es nm degs =
     (case initHierarchy ns es nm directed of
        Inl err \<Rightarrow> Inl err
      | Inr cnodes \<Rightarrow>
          (case topoLoop nm degs es cnodes [1 ..< length cnodes]
                  \<lparr>orderedCNodes = take 1 cnodes,
                   resNodes = [if ns = [] then None else Some 0],
                   pickFlags = (\<lambda>j. False)(0 := True),
                   topK = 0\<rparr> of
             Inl err \<Rightarrow> Inl err
           | Inr t \<Rightarrow> Inr (resNodes t)))"

section \<open>circular.ts: execute\<close>

definition c_fireLayoutEnd :: "circular \<Rightarrow> circular" where
  "c_fireLayoutEnd c = (if c_onLayoutEnd c then c\<lparr>c_layoutEnds := c_layoutEnds c + 1\<rparr> else c)"

text \<open>A radius option is falsy when it is \<^verbatim>\<open>null\<close> or zero.\<close>

definition falsy :: "real option \<Rightarrow> bool" where
  "falsy r = (r = None \<or> r = Some 0)"

text \<open>The radius of the node at position \<open>i\<close> of the order.\<close>

definition radiusAt :: "real option \<Rightarrow> real option \<Rightarrow> real option \<Rightarrow> nat \<Rightarrow> nat \<Rightarrow> real" where
  "radiusAt rad startRad endRad n i =
     (let r = (if falsy rad \<and> startRad \<noteq> None \<and> endRad \<noteq> None
               then Some (the startRad + (real i * (the endRad - the startRad)) / (real n - 1))
               else rad)
      in if falsy r then 10 + (real i * 100) / (real n - 1) else the r)"

text \<open>
  The angle of the node at position \<open>i\<close> of the order. \<open>divN\<close> is
  \<^verbatim>\<open>Math.ceil(n / divisions)\<close>, and \<^verbatim>\<open>i % divN\<close> is the remainder whose sign follows
  the dividend. For \<^verbatim>\<open>divisions = 0\<close> and for \<open>divN = 0\<close> JavaScript computes with
  Infinity and NaN, which the reals do not have.
\<close>

definition angleAt :: "circular \<Rightarrow> real \<Rightarrow> int \<Rightarrow> nat \<Rightarrow> real" where
  "angleAt c astep divN i =
     (if clockwise c
      then startAngle c + real_of_int (int i smod divN) * astep
             + ((2 * pi) / divisions c) * real_of_int \<lfloor>real i / real_of_int divN\<rfloor>
      else endAngle c - real_of_int (int i smod divN) * astep
             - ((2 * pi) / divisions c) * real_of_int \<lfloor>real i / real_of_int divN\<rfloor>)"

text \<open>
  The body of the placing loop: the object that \<^verbatim>\<open>layoutNodes[i]\<close> refers to gets its
  position and \<^verbatim>\<open>weight = degrees[i]\<close>. Writing to \<^verbatim>\<open>undefined\<close> raises a TypeError.
\<close>

definition placeNode ::
  "circular \<Rightarrow> real \<times> real \<Rightarrow> real option \<Rightarrow> real option \<Rightarrow> real option \<Rightarrow> real \<Rightarrow> int \<Rightarrow> nat list
    \<Rightarrow> nat option list \<Rightarrow> cnode list \<Rightarrow> nat \<Rightarrow> error + cnode list" where
  "placeNode c ctr rad startRad endRad astep divN degs layoutNodes ns i =
     (case elemAt layoutNodes i of
        Some (Some ref) \<Rightarrow>
          if ref < length ns
          then (let r = radiusAt rad startRad endRad (length ns) i;
                    angle = angleAt c astep divN i
                in Inr (ns[ref := (ns ! ref)\<lparr>cx := Some (fst ctr + cos angle * r),
                                             cy := Some (snd ctr + sin angle * r),
                                             weight := elemAt degs i\<rparr>]))
          else Inl TypeError
      | _ \<Rightarrow> Inl TypeError)"

fun placeAll ::
  "circular \<Rightarrow> real \<times> real \<Rightarrow> real option \<Rightarrow> real option \<Rightarrow> real option \<Rightarrow> real \<Rightarrow> int \<Rightarrow> nat list
    \<Rightarrow> nat option list \<Rightarrow> cnode list \<Rightarrow> nat list \<Rightarrow> error + cnode list" where
  "placeAll c ctr rad startRad endRad astep divN degs layoutNodes ns [] = Inr ns"
| "placeAll c ctr rad startRad endRad astep divN degs layoutNodes ns (i # is) =
     (case placeNode c ctr rad startRad endRad astep divN degs layoutNodes ns i of
        Inl err \<Rightarrow> Inl err
      | Inr ns' \<Rightarrow> placeAll c ctr rad startRad endRad astep divN degs layoutNodes ns' is)"

text \<open>The node that the placing loop writes at position \<open>i\<close> of the order.\<close>

definition placed ::
  "circular \<Rightarrow> real \<times> real \<Rightarrow> real option \<Rightarrow> real option \<Rightarrow> real option \<Rightarrow> real \<Rightarrow> int \<Rightarrow> nat list
    \<Rightarrow> nat \<Rightarrow> nat \<Rightarrow> cnode \<Rightarrow> cnode" where
  "placed c ctr rad sR eR astep divN degs n i nd =
     nd\<lparr>cx := Some (fst ctr + cos (angleAt c astep divN i) * radiusAt rad sR eR n i),
        cy := Some (snd ctr + sin (angleAt c astep divN i) * radiusAt rad sR eR n i),
        weight := elemAt degs i\<rparr>"

text \<open>
  The start of \<^verbatim>\<open>execute\<close> for a non-empty node list: a zero width or height is
  taken from the window, and a missing center is the middle of the canvas. The result is
  the instance and the center.
\<close>

definition resolveCenter :: "env \<Rightarrow> circular \<Rightarrow> circular \<times> (real \<times> real)" where
  "resolveCenter e c =
     (let c1 = (if c_width c = 0 \<and> hasWindow e then c\<lparr>c_width := innerWidth e\<rparr> else c);
          c2 = (if c_height c1 = 0 \<and> hasWindow e then c1\<lparr>c_height := innerHeight e\<rparr> else c1);
          ctr = (case c_center c2 of None \<Rightarrow> (c_width c2 / 2, c_height c2 / 2) | Some c' \<Rightarrow> c')
      in (c2\<lparr>c_center := Some ctr\<rparr>, ctr))"

text \<open>
  The locals \<^verbatim>\<open>radius\<close>, \<^verbatim>\<open>startRadius\<close> and \<^verbatim>\<open>endRadius\<close> after the
  \<^verbatim>\<open>if\<close> chain that fills in the missing ones.
\<close>

definition radii :: "circular \<Rightarrow> real option \<times> real option \<times> real option" where
  "radii c =
     (if falsy (radius c) \<and> falsy (startRadius c) \<and> falsy (endRadius c)
      then (Some (if c_height c > c_width c then c_width c / 2 else c_height c / 2),
            startRadius c, endRadius c)
      else if falsy (startRadius c) \<and> \<not> falsy (endRadius c)
      then (radius c, endRadius c, endRadius c)
      else if \<not> falsy (startRadius c) \<and> falsy (endRadius c)
      then (radius c, startRadius c, startRadius c)
      else (radius c, startRadius c, endRadius c))"

text \<open>The choice of \<^verbatim>\<open>layoutNodes\<close>: the nodes after the ordering and the references.\<close>

definition layoutOrder :: "circular \<Rightarrow> error + cnode list \<times> nat option list" where
  "layoutOrder c =
     (case ordering c of
        Topology \<Rightarrow>
          (case topologyOrdering False (c_nodes c) (c_edges c) (c_nodeMap c) (c_degrees c) of
             Inl err \<Rightarrow> Inl err | Inr refs \<Rightarrow> Inr (c_nodes c, refs))
      | TopologyDirected \<Rightarrow>
          (case topologyOrdering True (c_nodes c) (c_edges c) (c_nodeMap c) (c_degrees c) of
             Inl err \<Rightarrow> Inl err | Inr refs \<Rightarrow> Inr (c_nodes c, refs))
      | Degree \<Rightarrow> Inr (degreeOrdering (c_nodes c) (c_degrees c))
      | NoOrdering \<Rightarrow> Inr (c_nodes c, map Some [0 ..< length (c_nodes c)]))"

text \<open>
  The instance when the placing starts: the center is resolved, \<^verbatim>\<open>nodeMap\<close> maps
  the ids to the node indices and \<^verbatim>\<open>degrees\<close> holds the degrees.
\<close>

definition prepared :: "env \<Rightarrow> circular \<Rightarrow> circular" where
  "prepared e c =
     (let c3 = fst (resolveCenter e c); nm = indexMap (map cid (c_nodes c))
      in c3\<lparr>c_nodeMap := nm, c_degrees := getDegree (length (c_nodes c)) nm (c_edges c3)\<rparr>)"

text \<open>
  \<^verbatim>\<open>execute\<close> of \<^verbatim>\<open>CircularLayout\<close>. The result is the instance after the call and
  the array \<^verbatim>\<open>layoutNodes\<close> of the returned object (\<open>None\<close> when the method returns
  nothing).
\<close>

definition c_execute :: "env \<Rightarrow> circular \<Rightarrow> error + circular \<times> nat option list option" where
  "c_execute e c =
     (let ns = c_nodes c; n = length ns
      in if n = 0 then Inr (c_fireLayoutEnd c, None)
         else
           (let c3 = fst (resolveCenter e c); ctr = snd (resolveCenter e c)
            in if n = 1
               then Inr (c_fireLayoutEnd
                           (c3\<lparr>c_nodes := [(hd ns)\<lparr>cx := Some (fst ctr), cy := Some (snd ctr)\<rparr>]\<rparr>),
                         None)
               else
                 (let c4 = prepared e c;
                      angleStep = (endAngle c4 - startAngle c4) / real n;
                      astep = angleStep * angleRatio c4
                  in case layoutOrder c4 of
                       Inl err \<Rightarrow> Inl err
                     | Inr (ns1, layoutNodes) \<Rightarrow>
                         (let divN = \<lceil>real n / divisions c4\<rceil>
                          in case placeAll c4 ctr (fst (radii c4)) (fst (snd (radii c4)))
                                    (snd (snd (radii c4))) astep divN (c_degrees c4) layoutNodes
                                    ns1 [0 ..< n] of
                               Inl err \<Rightarrow> Inl err
                             | Inr ns2 \<Rightarrow>
                                 Inr (c_fireLayoutEnd (c4\<lparr>c_nodes := ns2\<rparr>), Some layoutNodes)))))"

text \<open>The node objects that an array of references holds.\<close>

definition deref :: "'a list \<Rightarrow> nat option list \<Rightarrow> 'a option list" where
  "deref ns refs = map (\<lambda>r. case r of None \<Rightarrow> None | Some i \<Rightarrow> elemAt ns i) refs"


definition weights :: "error + circular \<times> nat option list option \<Rightarrow> nat option list" where
  "weights res = (case res of Inl err \<Rightarrow> [] | Inr (c, r) \<Rightarrow> map weight (c_nodes c))"

section \<open>circular.ts: well-formed graphs and the invariant of topologyOrdering\<close>

text \<open>An end of an edge is falsy or the id of a node.\<close>

definition knownRef :: "cnode list \<Rightarrow> string \<Rightarrow> bool" where
  "knownRef ns r = (r = [] \<or> r \<in> set (map cid ns))"

definition knownEndsC :: "cnode list \<Rightarrow> edge \<Rightarrow> bool" where
  "knownEndsC ns e = (knownRef ns (source e) \<and> knownRef ns (target e))"

text \<open>
  What \<^verbatim>\<open>initHierarchy\<close> keeps true of the copies \<open>cs\<close> of the nodes \<open>ns\<close>: they
  have the ids of the nodes, and every child is the id of a node.
\<close>

definition hierarchy :: "cnode list \<Rightarrow> cnode list \<Rightarrow> bool" where
  "hierarchy ns cs =
     (map cid cs = map cid ns \<and> (\<forall>c \<in> set cs. set (children c) \<subseteq> set (map cid ns)))"

text \<open>
  The invariant of the loop of \<^verbatim>\<open>topologyOrdering\<close> after \<open>m\<close> nodes have been
  pushed: \<^verbatim>\<open>resNodes\<close> holds the references \<open>idxs\<close>, which are distinct, below the node
  count and exactly the picked indices.
\<close>

definition topoInv :: "cnode list \<Rightarrow> cnode list \<Rightarrow> nat \<Rightarrow> topo \<Rightarrow> nat list \<Rightarrow> bool" where
  "topoInv ns cs m t idxs =
     (resNodes t = map Some idxs \<and> distinct idxs \<and> length idxs = m
      \<and> (\<forall>j. pickFlags t j = (j \<in> set idxs)) \<and> set idxs \<subseteq> {..< length ns}
      \<and> topK t < length (orderedCNodes t) \<and> set (orderedCNodes t) \<subseteq> set cs)"

section \<open>The d3-force layout: execute\<close>

text \<open>
  \<^verbatim>\<open>ForceLayout\<close> hands the simulation to the library d3-force, which is not part of
  the sources. The simulation object, together with the forces that \<^verbatim>\<open>execute\<close>
  attaches to it, is a value of an abstract type \<open>'sim\<close>, and the three places where
  \<^verbatim>\<open>execute\<close> calls into the library are parameters: \<open>build\<close> constructs and
  configures a simulation (the body of the \<^verbatim>\<open>try\<close> block up to the worker test, which
  may throw), \<open>runToEnd\<close> is the loop of \<^verbatim>\<open>simulation.tick()\<close> in a worker with the
  number of messages it posts, and \<open>restart\<close> is the branch for an existing simulation.
\<close>

record 'sim forceLayout =
  ticking :: "bool option"
  forceSimulation :: "'sim option"
  workerEnabled :: bool
  posted :: nat

record 'sim d3force =
  build :: "'sim forceLayout \<Rightarrow> error + 'sim"
  runToEnd :: "'sim \<Rightarrow> 'sim \<times> nat"
  restart :: "bool \<Rightarrow> 'sim forceLayout \<Rightarrow> 'sim \<Rightarrow> 'sim"

definition f_execute ::
  "'sim d3force \<Rightarrow> bool \<Rightarrow> bool \<Rightarrow> 'sim forceLayout \<Rightarrow> 'sim forceLayout" where
  "f_execute d3 inWorker reloadData s =
     (if ticking s = Some True then s
      else (case forceSimulation s of
              None \<Rightarrow>
                (case build d3 s of
                   Inl err \<Rightarrow> s\<lparr>ticking := Some False\<rparr>
                 | Inr sim \<Rightarrow>
                     (let s1 = (if workerEnabled s \<and> \<not> inWorker then s\<lparr>workerEnabled := False\<rparr> else s)
                      in if \<not> workerEnabled s1
                         then s1\<lparr>forceSimulation := Some sim, ticking := Some True\<rparr>
                         else s1\<lparr>forceSimulation := Some (fst (runToEnd d3 sim)),
                                 posted := posted s1 + snd (runToEnd d3 sim),
                                 ticking := Some True\<rparr>))
            | Some sim \<Rightarrow>
                s\<lparr>forceSimulation := Some (restart d3 reloadData s sim), ticking := Some True\<rparr>))"

section \<open>Example inputs\<close>

text \<open>The field initialisers of the class \<^verbatim>\<open>GForceLayout\<close>, with no timer scheduled.\<close>

definition initial :: gforce where
  "initial =
     \<lparr>center = None, maxIteration = 1000, edgeStrength = NumV 200, nodeStrength = NumV 1000,
      coulombDisScale = 0.005, damping = 0.9, maxSpeed = 1000, minMovement = 0.5,
      interval = 0.02, factor = 1, getMass = None, getCenter = None, linkDistance = NumV 1,
      gravity = 10, preventOverlap = True, nodeSize = SzUndef, nodeSpacing = SpUndef,
      tick = True, nodes = Some [], edges = Some [], width = 300, height = 300,
      nodeIdxMap = Map.empty, onLayoutEnd = False, degrees = [], timeInterval = None,
      layoutEnds = 0, tickCalls = 0, timers = [], nextTimer = 1, randomCalls = 0\<rparr>"

definition nodeAt :: "string \<Rightarrow> real \<Rightarrow> real \<Rightarrow> node" where
  "nodeAt k a b = \<lparr>nid = k, x = Some a, y = Some b, fx = None, fy = None, nsize = None\<rparr>"

text \<open>A configuration whose \<^verbatim>\<open>getMass\<close> gives node \<open>a\<close> the mass 1 and every other node the mass 2.\<close>

definition twoMasses :: gforce where
  "twoMasses = initial\<lparr>getMass := Some (UserMass (\<lambda>d. if nid d = ''a'' then 1 else 2))\<rparr>"

text \<open>A node that is pinned at the position where it lies.\<close>

definition restNode :: "string \<Rightarrow> real \<Rightarrow> real \<Rightarrow> node" where
  "restNode k a b = \<lparr>nid = k, x = Some a, y = Some b, fx = Some a, fy = Some b, nsize = None\<rparr>"

text \<open>A browser: \<^verbatim>\<open>window\<close> is defined.\<close>

definition browser :: env where
  "browser = \<lparr>hasWindow = True, innerWidth = 800, innerHeight = 600, random = (\<lambda>k. 1 / 2)\<rparr>"

text \<open>
  Two nodes joined by an edge; the first one is pinned to \<open>(5, 7)\<close> and does not lie
  there.
\<close>

definition pinnedNodes :: "node list" where
  "pinnedNodes = [(nodeAt ''a'' 0 0)\<lparr>fx := Some 5, fy := Some 7\<rparr>, nodeAt ''b'' 1 0]"

definition pinnedStart :: gforce where
  "pinnedStart = initial\<lparr>nodes := Some pinnedNodes,
                         edges := Some [\<lparr>source = ''a'', target = ''b''\<rparr>]\<rparr>"

text \<open>
  The same two nodes with an edge from \<open>a\<close> to \<open>z\<close>, which is not the id of a node
  of the list.
\<close>

definition danglingStart :: gforce where
  "danglingStart = initial\<lparr>nodes := Some pinnedNodes,
                           edges := Some [\<lparr>source = ''a'', target = ''z''\<rparr>]\<rparr>"

text \<open>
  Two nodes pinned where they lie, an \<^verbatim>\<open>onLayoutEnd\<close> callback, and
  \<^verbatim>\<open>maxIteration = 1\<close>.
\<close>

definition restNodes :: "node list" where
  "restNodes = [restNode ''a'' 0 0, restNode ''b'' 100 0]"

definition twoPinned :: gforce where
  "twoPinned = initial\<lparr>nodes := Some restNodes, onLayoutEnd := True, maxIteration := 1\<rparr>"

text \<open>
  The same two nodes with \<^verbatim>\<open>minMovement = 0\<close>, so that the run ends by
  \<^verbatim>\<open>maxIteration\<close> only.
\<close>

definition steady :: gforce where
  "steady = initial\<lparr>nodes := Some restNodes, minMovement := 0\<rparr>"

text \<open>
  Two free nodes and no edge, with a \<^verbatim>\<open>nodeStrength\<close> function that returns 0, no
  overlap prevention and no gravity: the accumulated forces are zero and every step moves
  every node by 0.01 times the step interval in both coordinates. \<^verbatim>\<open>interval = 1\<close>
  makes the step interval depend on the iteration counter, and \<^verbatim>\<open>minMovement = 0\<close>
  makes the run end by \<^verbatim>\<open>maxIteration\<close> only. \<open>midRun\<close> is the instance after
  \<^verbatim>\<open>execute\<close> and three steps of the timer.
\<close>

definition drifting :: gforce where
  "drifting = initial\<lparr>nodes := Some [nodeAt ''a'' 0 0, nodeAt ''b'' 100 0],
                      nodeStrength := FunV (\<lambda>d. 0), preventOverlap := False, gravity := 0,
                      minMovement := 0, interval := 1\<rparr>"

definition midRun :: gforce where
  "midRun = fires [1, 1, 1] (execute browser drifting)"

text \<open>
  A \<^verbatim>\<open>ForceLayout\<close> whose simulation is running, over a trivial simulation type, and
  library operations that do nothing.
\<close>

definition tickingLayout :: "unit forceLayout" where
  "tickingLayout = \<lparr>ticking = Some True, forceSimulation = Some (), workerEnabled = False, posted = 0\<rparr>"

definition noD3 :: "unit d3force" where
  "noD3 = \<lparr>build = (\<lambda>s. Inr ()), runToEnd = (\<lambda>u. (u, 0)), restart = (\<lambda>r s u. u)\<rparr>"

text \<open>The field initialisers of the class \<^verbatim>\<open>CircularLayout\<close>.\<close>

definition c_initial :: circular where
  "c_initial =
     \<lparr>c_center = None, radius = None, startRadius = None, endRadius = None, startAngle = 0,
      endAngle = 2 * pi, clockwise = True, divisions = 1, ordering = NoOrdering, angleRatio = 1,
      c_nodes = [], c_edges = [], c_nodeMap = Map.empty, c_degrees = [], c_width = 300,
      c_height = 300, c_onLayoutEnd = False, c_layoutEnds = 0\<rparr>"

definition cnodeOf :: "string \<Rightarrow> cnode" where
  "cnodeOf k = \<lparr>cid = k, cx = None, cy = None, degree = None, weight = None,
                children = [], parent = []\<rparr>"




text \<open>A node \<open>a\<close> joined to \<open>b\<close> and to \<open>c\<close>, ordered by degree.\<close>

definition star :: circular where
  "star = c_initial\<lparr>c_nodes := [cnodeOf ''a'', cnodeOf ''b'', cnodeOf ''c''],
                     c_edges := [\<lparr>source = ''a'', target = ''b''\<rparr>, \<lparr>source = ''a'', target = ''c''\<rparr>],
                     ordering := Degree\<rparr>"

section \<open>Properties: gForce.ts\<close>

subsection \<open>updateVelocity\<close>

lemma velocity_fold_nth:
  assumes "2 * m \<le> length vel"
  shows "foldl (\<lambda>vel i. (vel[2 * i := f i])[2 * i + 1 := g i]) vel [0 ..< m] ! (2 * i)
           = (if i < m then f i else vel ! (2 * i))
       \<and> foldl (\<lambda>vel i. (vel[2 * i := f i])[2 * i + 1 := g i]) vel [0 ..< m] ! (2 * i + 1)
           = (if i < m then g i else vel ! (2 * i + 1))
       \<and> length (foldl (\<lambda>vel i. (vel[2 * i := f i])[2 * i + 1 := (g i :: real)]) vel [0 ..< m]) = length vel"
  using assms
proof (induction m)
  case 0
  then show ?case by simp
next
  case (Suc m)
  then show ?case
    by (auto simp: nth_list_update)
qed

lemma updateVelocity_nth:
  assumes "i < length ns" "length vel = 2 * length ns"
  shows "updateVelocity s acc vel dt ns ! (2 * i) = fst (velocityOf s acc dt i)"
    and "updateVelocity s acc vel dt ns ! (2 * i + 1) = snd (velocityOf s acc dt i)"
  using assms velocity_fold_nth[of "length ns" vel "\<lambda>i. fst (velocityOf s acc dt i)" "\<lambda>i. snd (velocityOf s acc dt i)" i]
  unfolding updateVelocity_def by simp_all

lemma updateVelocity_length:
  "length vel = 2 * length ns \<Longrightarrow> length (updateVelocity s acc vel dt ns) = length vel"
  using velocity_fold_nth[of "length ns" vel "\<lambda>i. fst (velocityOf s acc dt i)" "\<lambda>i. snd (velocityOf s acc dt i)" 0]
  unfolding updateVelocity_def by simp



lemma slow_speed: "\<not> 1000 < sqrt (1 / 5000)"
proof -
  have "sqrt (1 / 5000) \<le> (1000 :: real)"
    by (rule real_le_lsqrt) simp_all
  then show ?thesis by simp
qed

text \<open>
  C8, as stated, fails where a component of the accumulated acceleration times
  \<open>stepInterval * damping\<close> is zero: \<^verbatim>\<open>accArray[2 * i] * param || 0.01\<close> stores 0.01
  there. With one node, zero acceleration and the initial configuration the stored
  velocity is \<open>(0.01, 0.01)\<close>, its speed is below \<^verbatim>\<open>maxSpeed\<close>, and it is not the
  product.
\<close>

theorem updateVelocity_plain_counterexample:
  "updateVelocity initial [0, 0] [0, 0] 0.02 [nodeAt ''a'' 0 0] ! 0
     \<noteq> [0, 0] ! 0 * (0.02 * damping initial)
   \<and> updateVelocity initial [0, 0] [0, 0] 0.02 [nodeAt ''a'' 0 0] = [0.01, 0.01]
   \<and> \<not> sqrt (0.01 * 0.01 + 0.01 * 0.01) > maxSpeed initial"
  using slow_speed
  by (simp add: updateVelocity_def velocityOf_def orElse_def initial_def Let_def)

text \<open>
  C8, amended. For every node \<open>i\<close>, each component of the velocity is the matching
  entry of \<^verbatim>\<open>accArray\<close> times \<open>stepInterval * damping\<close> when that product is not zero,
  and 0.01 when it is zero. When the speed of this vector does not exceed \<^verbatim>\<open>maxSpeed\<close>
  it is stored as it is; when it does, the vector is stored scaled by
  \<open>maxSpeed / speed\<close>, and the stored vector has length \<open>\<bar>maxSpeed\<bar>\<close>.
\<close>


theorem updateVelocity_spec:
  assumes "i < length ns" and "length velArray = 2 * length ns"
  shows "let param = stepInterval * damping s;
             vx = orElse (accArray ! (2 * i) * param) 0.01;
             vy = orElse (accArray ! (2 * i + 1) * param) 0.01;
             speed = sqrt (vx * vx + vy * vy);
             vel = updateVelocity s accArray velArray stepInterval ns
         in (if accArray ! (2 * i) * param = 0 then vx = 0.01 else vx = accArray ! (2 * i) * param)
          \<and> (if accArray ! (2 * i + 1) * param = 0 then vy = 0.01
              else vy = accArray ! (2 * i + 1) * param)
          \<and> (if speed > maxSpeed s
              then vel ! (2 * i) = (maxSpeed s / speed) * vx
                 \<and> vel ! (2 * i + 1) = (maxSpeed s / speed) * vy
                 \<and> sqrt (vel ! (2 * i) * vel ! (2 * i) + vel ! (2 * i + 1) * vel ! (2 * i + 1))
                     = \<bar>maxSpeed s\<bar>
              else vel ! (2 * i) = vx \<and> vel ! (2 * i + 1) = vy)"
proof -
  define param where "param = stepInterval * damping s"
  define vx where "vx = orElse (accArray ! (2 * i) * param) 0.01"
  define vy where "vy = orElse (accArray ! (2 * i + 1) * param) 0.01"
  define vel where "vel = updateVelocity s accArray velArray stepInterval ns"
  let ?L = "sqrt (vx * vx + vy * vy)"
  have v: "vel ! (2 * i) = fst (velocityOf s accArray stepInterval i)"
          "vel ! (2 * i + 1) = snd (velocityOf s accArray stepInterval i)"
    unfolding vel_def using updateVelocity_nth[OF assms(1,2)] by simp_all
  have vo: "velocityOf s accArray stepInterval i =
              (if ?L > maxSpeed s then ((maxSpeed s / ?L) * vx, (maxSpeed s / ?L) * vy) else (vx, vy))"
    unfolding velocityOf_def vx_def vy_def param_def by (simp add: Let_def)
  have nz: "vx \<noteq> 0" "vy \<noteq> 0"
    unfolding vx_def vy_def orElse_def by auto
  have "vx * vx + vy * vy > 0" using nz
    by (simp add: sum_squares_gt_zero_iff)
  then have Lpos: "?L > 0" by simp
  have len: "sqrt (((maxSpeed s / ?L) * vx) * ((maxSpeed s / ?L) * vx)
                 + ((maxSpeed s / ?L) * vy) * ((maxSpeed s / ?L) * vy)) = \<bar>maxSpeed s\<bar>"
  proof -
    have "((maxSpeed s / ?L) * vx) * ((maxSpeed s / ?L) * vx)
                 + ((maxSpeed s / ?L) * vy) * ((maxSpeed s / ?L) * vy)
          = (maxSpeed s / ?L)\<^sup>2 * (vx * vx + vy * vy)"
      by (simp only: power2_eq_square distrib_left mult.assoc mult.left_commute)
    then have "sqrt (((maxSpeed s / ?L) * vx) * ((maxSpeed s / ?L) * vx)
                 + ((maxSpeed s / ?L) * vy) * ((maxSpeed s / ?L) * vy))
          = \<bar>maxSpeed s / ?L\<bar> * ?L"
      by (simp add: real_sqrt_mult)
    also have "\<dots> = \<bar>maxSpeed s\<bar>" using Lpos nz by simp
    finally show ?thesis .
  qed
  have main: "(if accArray ! (2 * i) * param = 0 then vx = 0.01 else vx = accArray ! (2 * i) * param)
          \<and> (if accArray ! (2 * i + 1) * param = 0 then vy = 0.01
              else vy = accArray ! (2 * i + 1) * param)
          \<and> (if ?L > maxSpeed s
              then vel ! (2 * i) = (maxSpeed s / ?L) * vx
                 \<and> vel ! (2 * i + 1) = (maxSpeed s / ?L) * vy
                 \<and> sqrt (vel ! (2 * i) * vel ! (2 * i) + vel ! (2 * i + 1) * vel ! (2 * i + 1))
                     = \<bar>maxSpeed s\<bar>
              else vel ! (2 * i) = vx \<and> vel ! (2 * i + 1) = vy)"
    using v vo len by (auto simp: vx_def vy_def orElse_def)
  show ?thesis
    unfolding Let_def
    using main unfolding vx_def vy_def param_def vel_def by simp
qed

text \<open>The amended C8 at one node with zero acceleration.\<close>

theorem updateVelocity_spec_witness:
  "0 < length [nodeAt ''a'' 0 0] \<and> length [0, 0 :: real] = 2 * length [nodeAt ''a'' 0 0]
   \<and> updateVelocity initial [0, 0] [0, 0] 0.02 [nodeAt ''a'' 0 0] = [0.01, 0.01]"
  using slow_speed
    updateVelocity_spec[where i = 0 and ns = "[nodeAt ''a'' 0 0]" and velArray = "[0, 0]"
      and stepInterval = "0.02" and s = initial and accArray = "[0, 0]"]
  by (simp add: Let_def orElse_def initial_def updateVelocity_def)

subsection \<open>calRepulsive\<close>

lemma addAt_nth:
  "k < length acc \<Longrightarrow> addAt acc k v ! m = (if m = k then acc ! k + v else acc ! m)"
  by (simp add: addAt_def nth_list_update)

lemma addAt_length: "length (addAt acc k v) = length acc"
  by (simp add: addAt_def)

text \<open>
  C1, as stated, fails when the overlap correction applies to a pair whose nodes have
  different masses: node \<open>i\<close> receives the correction divided by its own mass and node
  \<open>j\<close> the negated correction divided by the mass of \<open>j\<close>. Two nodes at distance 1 with
  the default size 10, strength 1000 and masses 1 and 2:
\<close>

theorem repulsion_antisymmetric_counterexample:
  "contribution twoMasses (proccessToFunc (NumV 1000) (Some 1)) (nodeSizeFunc SzUndef SpUndef)
       [nodeAt ''a'' 1 0, nodeAt ''b'' 0 0] 0 1 [0, 0, 0, 0] 0
   \<noteq> - contribution twoMasses (proccessToFunc (NumV 1000) (Some 1)) (nodeSizeFunc SzUndef SpUndef)
       [nodeAt ''a'' 1 0, nodeAt ''b'' 0 0] 0 1 [0, 0, 0, 0] 2"
  by (simp add: contribution_def repulsePair_def Let_def addAt_def twoMasses_def initial_def
      nodeAt_def massOf_def overlapping_def nodeSizeFunc_def nodeSpacingFunc_def
      proccessToFunc_def num_def)


text \<open>
  C1, amended. For every pair \<open>i < j\<close> of nodes, whenever the overlap correction does not
  apply to the pair (overlap prevention is off, or the distance is not below half the sum
  of the two sizes) or the two nodes have the same mass, what the pair's body adds to the
  two accumulator entries of node \<open>i\<close> is the exact negation of what it adds to the two
  entries of node \<open>j\<close>.
\<close>

theorem repulsion_antisymmetric:
  assumes "i < j" and "j < length ns" and "length accArray = 2 * length ns"
    and "\<not> overlapApplies s sizeOf (ns ! i) (ns ! j) \<or> massOf s (ns ! i) = massOf s (ns ! j)"
  shows "contribution s strength sizeOf ns i j accArray (2 * i)
           = - contribution s strength sizeOf ns i j accArray (2 * j)
       \<and> contribution s strength sizeOf ns i j accArray (2 * i + 1)
           = - contribution s strength sizeOf ns i j accArray (2 * j + 1)"
proof -
  have idx: "2 * i < length accArray" "2 * i + 1 < length accArray"
            "2 * j < length accArray" "2 * j + 1 < length accArray"
            "2 * i \<noteq> 2 * j" "2 * i + 1 \<noteq> 2 * j + 1" "2 * i + 1 \<noteq> 2 * j" "2 * j + 1 \<noteq> 2 * i"
    using assms(1-3) by presburger+
  show ?thesis
    using assms(4) idx
    unfolding contribution_def repulsePair_def overlapApplies_def Let_def
    by (auto simp: addAt_nth addAt_length)
qed

text \<open>The amended C1 at two overlapping nodes of equal mass.\<close>

theorem repulsion_antisymmetric_witness:
  "(0::nat) < 1 \<and> 1 < length [nodeAt ''a'' 1 0, nodeAt ''b'' 0 0]
   \<and> length [0, 0, 0, 0 :: real] = 2 * length [nodeAt ''a'' 1 0, nodeAt ''b'' 0 0]
   \<and> massOf initial ([nodeAt ''a'' 1 0, nodeAt ''b'' 0 0] ! 0)
       = massOf initial ([nodeAt ''a'' 1 0, nodeAt ''b'' 0 0] ! 1)
   \<and> overlapApplies initial (nodeSizeFunc SzUndef SpUndef) (nodeAt ''a'' 1 0) (nodeAt ''b'' 0 0)
   \<and> contribution initial (proccessToFunc (NumV 1000) (Some 1)) (nodeSizeFunc SzUndef SpUndef)
         [nodeAt ''a'' 1 0, nodeAt ''b'' 0 0] 0 1 [0, 0, 0, 0] (2 * 0)
       = - contribution initial (proccessToFunc (NumV 1000) (Some 1)) (nodeSizeFunc SzUndef SpUndef)
         [nodeAt ''a'' 1 0, nodeAt ''b'' 0 0] 0 1 [0, 0, 0, 0] (2 * 1)"
  using repulsion_antisymmetric[where i = 0 and j = 1
      and ns = "[nodeAt ''a'' 1 0, nodeAt ''b'' 0 0]" and accArray = "[0, 0, 0, 0]"
      and s = initial and sizeOf = "nodeSizeFunc SzUndef SpUndef"
      and strength = "proccessToFunc (NumV 1000) (Some 1)"]
  by (simp add: massOf_def initial_def overlapApplies_def overlapping_def nodeSizeFunc_def
      nodeSpacingFunc_def nodeAt_def num_def)

subsection \<open>The timer callback\<close>

lemma calRepulsive_total:
  assumes "isFunction (nodeStrength s)"
    and "preventOverlap s \<longrightarrow> (case nodeSize s of SzFun f \<Rightarrow> True | _ \<Rightarrow> False)"
  shows "\<exists>acc. calRepulsive s accArray ns = Inr acc"
  using assms unfolding calRepulsive_def isFunction_def
  by (auto split: valfun.splits sizeval.splits)

lemma attractAll_total:
  assumes "list_all (knownEdge (nodeIdxMap s) (length ns)) es"
  shows "\<exists>acc. attractAll s distance strength ns accArray es = Inr acc"
  using assms
proof (induction es arbitrary: accArray)
  case Nil
  then show ?case by simp
next
  case (Cons e es)
  from Cons.prems have "knownEdge (nodeIdxMap s) (length ns) e" by simp
  then obtain acc where "attractEdge s distance strength ns accArray e = Inr acc"
    unfolding knownEdge_def attractEdge_def nodeMap_def
    by (auto simp: Let_def split: option.splits)
  then show ?case using Cons by simp
qed

lemma calAttractive_total:
  assumes "isFunction (linkDistance s)" and "isFunction (edgeStrength s)"
    and "list_all (knownEdge (nodeIdxMap s) (length ns)) es"
  shows "\<exists>acc. calAttractive s ns accArray es = Inr acc"
  using assms attractAll_total[OF assms(3)] unfolding calAttractive_def isFunction_def
  by (auto split: valfun.splits)

lemma calGravity_total:
  assumes "center s \<noteq> None"
  shows "\<exists>acc. calGravity s accArray ns = Inr acc"
  using assms unfolding calGravity_def by auto

lemma accumulate_total:
  assumes "ready s" and "nodes s = Some ns"
  shows "\<exists>acc. accumulate s ns = Inr acc"
proof -
  obtain a1 where a1: "calRepulsive s (replicate (2 * length ns) 0) ns = Inr a1"
    using calRepulsive_total assms(1) unfolding ready_def by blast
  have "\<exists>a2. (case edges s of None \<Rightarrow> Inr a1 | Some es \<Rightarrow> calAttractive s ns a1 es) = Inr a2"
  proof (cases "edges s")
    case None
    then show ?thesis by simp
  next
    case (Some es)
    then have "list_all (knownEdge (nodeIdxMap s) (length ns)) es"
      using assms unfolding ready_def by simp
    then show ?thesis
      using calAttractive_total assms(1) Some unfolding ready_def by simp
  qed
  then obtain a2 where a2: "(case edges s of None \<Rightarrow> Inr a1 | Some es \<Rightarrow> calAttractive s ns a1 es) = Inr a2"
    by blast
  obtain a3 where "calGravity s a2 ns = Inr a3"
    using calGravity_total assms(1) unfolding ready_def by blast
  then show ?thesis
    unfolding accumulate_def using a1 a2 by simp
qed

lemma updatePosition_length: "length (updatePosition vel dt ns) = length ns"
  by (simp add: updatePosition_def)

lemma updatePosition_nth:
  "i < length ns \<Longrightarrow> updatePosition vel dt ns ! i = moveNode vel dt i (ns ! i)"
  by (simp add: updatePosition_def nth_enumerate_eq)

lemma moveNode_pins:
  "fx (moveNode vel dt i n) = fx n" "fy (moveNode vel dt i n) = fy n"
  "nid (moveNode vel dt i n) = nid n"
  "fx n = Some a \<Longrightarrow> fy n = Some b \<Longrightarrow> x (moveNode vel dt i n) = Some a \<and> y (moveNode vel dt i n) = Some b"
  by (simp_all add: moveNode_def isNumber_def Let_def)

lemma nodes_fireLayoutEnd: "nodes (fireLayoutEnd s) = nodes s"
  by (simp add: fireLayoutEnd_def)

lemma nodes_clearOwn: "nodes (clearOwn s) = nodes s"
  by (simp add: clearOwn_def clearInterval_def split: option.splits)

lemma nodes_advance:
  "nodes (advance t cl s ns acc) =
     Some (updatePosition
             (updateVelocity s acc (replicate (2 * length ns) 0)
                (max 0.02 (interval s - real (iter cl) * 0.002)) ns)
             (max 0.02 (interval s - real (iter cl) * 0.002)) ns)"
  unfolding advance_def Let_def
  by (simp add: nodes_fireLayoutEnd nodes_clearOwn)

text \<open>What a firing of any timer does to the node list.\<close>

lemma fire_nodes:
  assumes "nodes s = Some ns"
  shows "nodes (fire t s) = Some ns \<or> (\<exists>vel dt. nodes (fire t s) = Some (updatePosition vel dt ns))"
proof (cases "map_of (timers s) t")
  case None
  then show ?thesis using assms by (simp add: fire_def)
next
  case (Some cl)
  show ?thesis
  proof (cases "accumulate s ns")
    case (Inl err)
    then show ?thesis using assms Some by (simp add: fire_def callback_def)
  next
    case (Inr acc)
    then have "fire t s = advance t cl s ns acc"
      using assms Some by (simp add: fire_def callback_def)
    then show ?thesis using nodes_advance[of t cl s ns acc] by auto
  qed
qed

lemma fire_nodes_ready:
  assumes "nodes s = Some ns" and "ready s" and "map_of (timers s) t = Some cl"
  shows "\<exists>vel dt. nodes (fire t s) = Some (updatePosition vel dt ns)"
proof -
  obtain acc where "accumulate s ns = Inr acc"
    using accumulate_total[OF assms(2,1)] by blast
  then have "fire t s = advance t cl s ns acc"
    using assms by (simp add: fire_def callback_def)
  then show ?thesis using nodes_advance[of t cl s ns acc] by auto
qed

lemma pinnedAt_fire:
  assumes "pinnedAt s i a b"
  shows "pinnedAt (fire t s) i a b"
proof -
  obtain ns where ns: "nodes s = Some ns" "i < length ns" "fx (ns ! i) = Some a"
    "fy (ns ! i) = Some b" "x (ns ! i) = Some a" "y (ns ! i) = Some b"
    using assms unfolding pinnedAt_def by (auto split: option.splits)
  from fire_nodes[OF ns(1), of t] show ?thesis
  proof
    assume "nodes (fire t s) = Some ns"
    then show ?thesis using ns by (simp add: pinnedAt_def)
  next
    assume "\<exists>vel dt. nodes (fire t s) = Some (updatePosition vel dt ns)"
    then obtain vel dt where "nodes (fire t s) = Some (updatePosition vel dt ns)" by blast
    then show ?thesis using ns
      by (simp add: pinnedAt_def updatePosition_length updatePosition_nth moveNode_pins)
  qed
qed

lemma pinnedAt_fires:
  "pinnedAt s i a b \<Longrightarrow> pinnedAt (fires ts s) i a b"
  unfolding fires_def
  by (induction ts arbitrary: s) (simp_all add: pinnedAt_fire)

subsection \<open>What execute establishes\<close>

lemma indexMap_fold_other:
  "k \<notin> set ids \<Longrightarrow> foldl (\<lambda>m (i, k). m(k \<mapsto> i)) m (enumerate n ids) k = m k"
  by (induction ids arbitrary: m n) auto

lemma indexMap_fold_range:
  "k \<in> set ids \<Longrightarrow>
     \<exists>i. foldl (\<lambda>m (i, k). m(k \<mapsto> i)) m (enumerate n ids) k = Some i \<and> n \<le> i \<and> i < n + length ids"
proof (induction ids arbitrary: m n)
  case Nil
  then show ?case by simp
next
  case (Cons a ids)
  show ?case
  proof (cases "k \<in> set ids")
    case True
    from Cons.IH[OF True, of "m(a \<mapsto> n)" "Suc n"] show ?thesis by auto
  next
    case False
    then have "k = a" using Cons.prems by simp
    moreover have "foldl (\<lambda>m (i, k). m(k \<mapsto> i)) (m(a \<mapsto> n)) (enumerate (Suc n) ids) a
                     = (m(a \<mapsto> n)) a"
      using False \<open>k = a\<close> by (intro indexMap_fold_other) simp
    ultimately show ?thesis
      by (intro exI[of _ n]) (simp del: fun_upd_apply add: fun_upd_same)
  qed
qed

lemma indexMap_known:
  "k \<in> set ids \<Longrightarrow> \<exists>i. indexMap ids k = Some i \<and> i < length ids"
  using indexMap_fold_range[of k ids Map.empty 0] by (auto simp: indexMap_def)

lemma seedNodes_length: "length (fst (seedNodes e w h k ns)) = length ns"
  by (induction ns arbitrary: k) (simp_all add: Let_def)

lemma seedNodes_nth:
  "i < length ns \<Longrightarrow>
     fx (fst (seedNodes e w h k ns) ! i) = fx (ns ! i)
   \<and> fy (fst (seedNodes e w h k ns) ! i) = fy (ns ! i)
   \<and> nid (fst (seedNodes e w h k ns) ! i) = nid (ns ! i)"
proof (induction ns arbitrary: k i)
  case Nil
  then show ?case by simp
next
  case (Cons n ns)
  then show ?case by (cases i) (simp_all add: Let_def)
qed

lemma seedNodes_numeric:
  "list_all numeric ns \<Longrightarrow> seedNodes e w h k ns = (ns, k)"
  by (induction ns arbitrary: k) (simp_all add: Let_def numeric_def)

lemma map_of_filter_other:
  "t \<noteq> t' \<Longrightarrow> map_of (filter (\<lambda>(u, _). u \<noteq> t') ts) t = map_of ts t"
  by (induction ts) auto

lemma map_of_fresh_None:
  "list_all (\<lambda>(u, c). u < t) ts \<Longrightarrow> map_of ts (t::nat) = None"
  by (induction ts) auto

lemma map_of_append_fresh:
  "list_all (\<lambda>(u, c). u < t) ts \<Longrightarrow> map_of (ts @ [(t, cl)]) (t::nat) = Some cl"
  by (simp add: map_of_fresh_None map_add_def)

lemma freshTimer_clearOwn: "freshTimer s \<Longrightarrow> freshTimer (clearOwn s)"
  by (auto simp: freshTimer_def clearOwn_def clearInterval_def list_all_iff split: option.splits)

lemma knownEnds_knownEdge:
  assumes "knownEnds ns e"
  shows "knownEdge (indexMap (map nid ns)) (length ns) e"
proof -
  obtain i j where "indexMap (map nid ns) (source e) = Some i" "i < length ns"
    "indexMap (map nid ns) (target e) = Some j" "j < length ns"
    using assms(1) indexMap_known[of "source e" "map nid ns"]
      indexMap_known[of "target e" "map nid ns"]
    unfolding knownEnds_def by auto
  then show ?thesis by (simp add: knownEdge_def)
qed

lemma execute_starts:
  assumes "nodes s = Some ns" and "2 \<le> length ns" and "hasWindow e"
    and "case edges s of None \<Rightarrow> True | Some es \<Rightarrow> list_all (knownEnds ns) es"
    and "freshTimer s"
  shows "ready (execute e s)"
    and "timeInterval (execute e s) = Some (nextTimer s)"
    and "map_of (timers (execute e s)) (nextTimer s)
           = Some \<lparr>iter = 0, capMaxIteration = maxIteration s\<rparr>"
    and "\<exists>ns'. nodes (execute e s) = Some ns' \<and> length ns' = length ns
           \<and> (\<forall>i < length ns. fx (ns' ! i) = fx (ns ! i) \<and> fy (ns' ! i) = fy (ns ! i))"
    and "layoutEnds (execute e s) = layoutEnds s"
    and "onLayoutEnd (execute e s) = onLayoutEnd s"
    and "minMovement (execute e s) = minMovement s"
    and "timers (execute e s) =
           (case timeInterval s of None \<Rightarrow> timers s
            | Some t \<Rightarrow> filter (\<lambda>(u, c). u \<noteq> t) (timers s))
           @ [(nextTimer s, \<lparr>iter = 0, capMaxIteration = maxIteration s\<rparr>)]"
    and "nextTimer (execute e s) = nextTimer s + 1"
    and "list_all numeric ns \<longrightarrow> nodes (execute e s) = Some ns"
    and "edges (execute e s) = edges s"
    and "maxIteration (execute e s) = maxIteration s"
proof -
  define s0 where "s0 = (if timeInterval s \<noteq> None \<and> hasWindow e then clearOwn s else s)"
  have s0: "nodes s0 = Some ns" "edges s0 = edges s" "nextTimer s0 = nextTimer s"
    "layoutEnds s0 = layoutEnds s" "onLayoutEnd s0 = onLayoutEnd s"
    "maxIteration s0 = maxIteration s" "freshTimer s0" "minMovement s0 = minMovement s"
    "timers s0 = (case timeInterval s of None \<Rightarrow> timers s
                  | Some t \<Rightarrow> filter (\<lambda>(u, c). u \<noteq> t) (timers s))"
    using assms(1,3,5) freshTimer_clearOwn[of s] unfolding s0_def
    by (auto simp: clearOwn_def clearInterval_def split: option.splits)
  have len: "length ns \<noteq> 0" "length ns \<noteq> 1" using assms(2) by auto
  have fresh: "list_all (\<lambda>(u, c). u < nextTimer s) (timers s0)"
    using s0(7,3) by (simp add: freshTimer_def)
  have ex: "execute e s = (let s1 = (if width s0 = 0 \<and> hasWindow e then s0\<lparr>width := innerWidth e\<rparr> else s0);
                    s2 = (if height s1 = 0 \<and> hasWindow e then s1\<lparr>height := innerHeight e\<rparr> else s1);
                    c = (case center s2 of None \<Rightarrow> (width s2 / 2, height s2 / 2) | Some c' \<Rightarrow> c');
                    s3 = s2\<lparr>center := Some c\<rparr>;
                    seeded = seedNodes e (width s3) (height s3) (randomCalls s3) ns;
                    idx = indexMap (map nid ns);
                    s4 = s3\<lparr>nodes := Some (fst seeded), randomCalls := snd seeded,
                                  nodeIdxMap := idx,
                                  linkDistance := FunV (proccessToFunc (linkDistance s3) (Some 1)),
                                  nodeStrength := FunV (proccessToFunc (nodeStrength s3) (Some 1)),
                                  edgeStrength := FunV (proccessToFunc (edgeStrength s3) (Some 1)),
                                  nodeSize := (if preventOverlap s3
                                               then SzFun (nodeSizeFunc (nodeSize s3) (nodeSpacing s3))
                                               else SzUndef),
                                  degrees := getDegree (length ns) idx
                                               (case edges s3 of None \<Rightarrow> [] | Some es \<Rightarrow> es)\<rparr>;
                    s5 = (if getMass s4 = None then s4\<lparr>getMass := Some DegreeMass\<rparr> else s4)
                 in run e s5)"
    unfolding execute_def s0_def[symmetric] using s0(1) len by (simp add: Let_def)
  have known: "\<And>es. edges s = Some es \<Longrightarrow>
      list_all (knownEdge (indexMap (map nid ns)) (length ns)) es"
    using assms(4) knownEnds_knownEdge[where ns = ns]
    by (auto simp: list_all_iff)
  show "ready (execute e s)"
    unfolding ex Let_def run_def ready_def isFunction_def
    using assms(3) s0(1,2) known
    by (simp add: seedNodes_length split: option.splits)
  show "timeInterval (execute e s) = Some (nextTimer s)"
    unfolding ex Let_def run_def using assms(3) s0(3) by simp
  show "map_of (timers (execute e s)) (nextTimer s)
           = Some \<lparr>iter = 0, capMaxIteration = maxIteration s\<rparr>"
    unfolding ex Let_def run_def using assms(3) s0(3,6) map_of_append_fresh[OF fresh]
    by simp
  show "\<exists>ns'. nodes (execute e s) = Some ns' \<and> length ns' = length ns
           \<and> (\<forall>i < length ns. fx (ns' ! i) = fx (ns ! i) \<and> fy (ns' ! i) = fy (ns ! i))"
    unfolding ex Let_def run_def using assms(3)
    by (simp add: seedNodes_length seedNodes_nth)
  show "layoutEnds (execute e s) = layoutEnds s"
    unfolding ex Let_def run_def using assms(3) s0(4) by simp
  show "onLayoutEnd (execute e s) = onLayoutEnd s"
    unfolding ex Let_def run_def using assms(3) s0(5) by simp
  show "minMovement (execute e s) = minMovement s"
    unfolding ex Let_def run_def using assms(3) s0(8) by simp
  show "timers (execute e s) =
           (case timeInterval s of None \<Rightarrow> timers s
            | Some t \<Rightarrow> filter (\<lambda>(u, c). u \<noteq> t) (timers s))
           @ [(nextTimer s, \<lparr>iter = 0, capMaxIteration = maxIteration s\<rparr>)]"
    unfolding ex Let_def run_def using assms(3) s0(3,6,9) by simp
  show "nextTimer (execute e s) = nextTimer s + 1"
    unfolding ex Let_def run_def using assms(3) s0(3) by simp
  show "list_all numeric ns \<longrightarrow> nodes (execute e s) = Some ns"
    unfolding ex Let_def run_def using assms(3)
    by (simp add: seedNodes_numeric)
  show "edges (execute e s) = edges s"
    unfolding ex Let_def run_def using assms(3) s0(2) by simp
  show "maxIteration (execute e s) = maxIteration s"
    unfolding ex Let_def run_def using assms(3) s0(6) by simp
qed

text \<open>
  What \<^verbatim>\<open>execute\<close> leaves in the instance whatever the edges and the timer table
  are.
\<close>

lemma map_of_append_key: "map_of (ts @ [(t, cl)]) t \<noteq> None"
  by (simp add: map_add_def split: option.splits)

lemma execute_fields:
  assumes "nodes s = Some ns" and "2 \<le> length ns" and "hasWindow e"
  shows "timeInterval (execute e s) = Some (nextTimer s)"
    and "timers (execute e s) =
           (case timeInterval s of None \<Rightarrow> timers s
            | Some t \<Rightarrow> filter (\<lambda>(u, c). u \<noteq> t) (timers s))
           @ [(nextTimer s, \<lparr>iter = 0, capMaxIteration = maxIteration s\<rparr>)]"
    and "nextTimer (execute e s) = nextTimer s + 1"
    and "list_all numeric ns \<longrightarrow> nodes (execute e s) = Some ns"
    and "\<exists>ns'. nodes (execute e s) = Some ns' \<and> length ns' = length ns
           \<and> (\<forall>i < length ns. fx (ns' ! i) = fx (ns ! i) \<and> fy (ns' ! i) = fy (ns ! i))"
    and "edges (execute e s) = edges s"
    and "nodeIdxMap (execute e s) = indexMap (map nid ns)"
    and "isFunction (nodeStrength (execute e s)) \<and> isFunction (linkDistance (execute e s))
         \<and> isFunction (edgeStrength (execute e s))
         \<and> (preventOverlap (execute e s)
              \<longrightarrow> (case nodeSize (execute e s) of SzFun f \<Rightarrow> True | _ \<Rightarrow> False))
         \<and> center (execute e s) \<noteq> None"
    and "nodeStrength (execute e s) = FunV (proccessToFunc (nodeStrength s) (Some 1))"
    and "preventOverlap (execute e s) = preventOverlap s \<and> gravity (execute e s) = gravity s
         \<and> getCenter (execute e s) = getCenter s \<and> minMovement (execute e s) = minMovement s
         \<and> maxSpeed (execute e s) = maxSpeed s \<and> interval (execute e s) = interval s
         \<and> maxIteration (execute e s) = maxIteration s"
proof -
  define s0 where "s0 = (if timeInterval s \<noteq> None \<and> hasWindow e then clearOwn s else s)"
  have s0: "nodes s0 = Some ns" "edges s0 = edges s" "nextTimer s0 = nextTimer s"
    "maxIteration s0 = maxIteration s" "minMovement s0 = minMovement s"
    "timers s0 = (case timeInterval s of None \<Rightarrow> timers s
                  | Some t \<Rightarrow> filter (\<lambda>(u, c). u \<noteq> t) (timers s))"
    "nodeStrength s0 = nodeStrength s" "preventOverlap s0 = preventOverlap s"
    "gravity s0 = gravity s" "getCenter s0 = getCenter s" "maxSpeed s0 = maxSpeed s"
    "interval s0 = interval s"
    using assms(1,3) unfolding s0_def
    by (auto simp: clearOwn_def clearInterval_def split: option.splits)
  have len: "length ns \<noteq> 0" "length ns \<noteq> 1" using assms(2) by auto
  have ex: "execute e s = (let s1 = (if width s0 = 0 \<and> hasWindow e then s0\<lparr>width := innerWidth e\<rparr> else s0);
                    s2 = (if height s1 = 0 \<and> hasWindow e then s1\<lparr>height := innerHeight e\<rparr> else s1);
                    c = (case center s2 of None \<Rightarrow> (width s2 / 2, height s2 / 2) | Some c' \<Rightarrow> c');
                    s3 = s2\<lparr>center := Some c\<rparr>;
                    seeded = seedNodes e (width s3) (height s3) (randomCalls s3) ns;
                    idx = indexMap (map nid ns);
                    s4 = s3\<lparr>nodes := Some (fst seeded), randomCalls := snd seeded,
                                  nodeIdxMap := idx,
                                  linkDistance := FunV (proccessToFunc (linkDistance s3) (Some 1)),
                                  nodeStrength := FunV (proccessToFunc (nodeStrength s3) (Some 1)),
                                  edgeStrength := FunV (proccessToFunc (edgeStrength s3) (Some 1)),
                                  nodeSize := (if preventOverlap s3
                                               then SzFun (nodeSizeFunc (nodeSize s3) (nodeSpacing s3))
                                               else SzUndef),
                                  degrees := getDegree (length ns) idx
                                               (case edges s3 of None \<Rightarrow> [] | Some es \<Rightarrow> es)\<rparr>;
                    s5 = (if getMass s4 = None then s4\<lparr>getMass := Some DegreeMass\<rparr> else s4)
                 in run e s5)"
    unfolding execute_def s0_def[symmetric] using s0(1) len by (simp add: Let_def)
  show "timeInterval (execute e s) = Some (nextTimer s)"
    unfolding ex Let_def run_def using assms(3) s0(3) by simp
  show "timers (execute e s) =
           (case timeInterval s of None \<Rightarrow> timers s
            | Some t \<Rightarrow> filter (\<lambda>(u, c). u \<noteq> t) (timers s))
           @ [(nextTimer s, \<lparr>iter = 0, capMaxIteration = maxIteration s\<rparr>)]"
    unfolding ex Let_def run_def using assms(3) s0(3,4,6) by simp
  show "nextTimer (execute e s) = nextTimer s + 1"
    unfolding ex Let_def run_def using assms(3) s0(3) by simp
  show "list_all numeric ns \<longrightarrow> nodes (execute e s) = Some ns"
    unfolding ex Let_def run_def using assms(3)
    by (simp add: seedNodes_numeric)
  show "\<exists>ns'. nodes (execute e s) = Some ns' \<and> length ns' = length ns
           \<and> (\<forall>i < length ns. fx (ns' ! i) = fx (ns ! i) \<and> fy (ns' ! i) = fy (ns ! i))"
    unfolding ex Let_def run_def using assms(3)
    by (simp add: seedNodes_length seedNodes_nth)
  show "edges (execute e s) = edges s"
    unfolding ex Let_def run_def using assms(3) s0(2) by simp
  show "nodeIdxMap (execute e s) = indexMap (map nid ns)"
    unfolding ex Let_def run_def using assms(3) by simp
  show "isFunction (nodeStrength (execute e s)) \<and> isFunction (linkDistance (execute e s))
         \<and> isFunction (edgeStrength (execute e s))
         \<and> (preventOverlap (execute e s)
              \<longrightarrow> (case nodeSize (execute e s) of SzFun f \<Rightarrow> True | _ \<Rightarrow> False))
         \<and> center (execute e s) \<noteq> None"
    unfolding ex Let_def run_def isFunction_def using assms(3) by simp
  show "nodeStrength (execute e s) = FunV (proccessToFunc (nodeStrength s) (Some 1))"
    unfolding ex Let_def run_def using assms(3) s0(7) by simp
  show "preventOverlap (execute e s) = preventOverlap s \<and> gravity (execute e s) = gravity s
         \<and> getCenter (execute e s) = getCenter s \<and> minMovement (execute e s) = minMovement s
         \<and> maxSpeed (execute e s) = maxSpeed s \<and> interval (execute e s) = interval s
         \<and> maxIteration (execute e s) = maxIteration s"
    unfolding ex Let_def run_def using assms(3) s0(4,5,8-12) by simp
qed

lemma execute_ready:
  assumes "nodes s = Some ns" and "2 \<le> length ns" and "hasWindow e"
    and "case edges s of None \<Rightarrow> True | Some es \<Rightarrow> list_all (knownEnds ns) es"
  shows "ready (execute e s)"
proof -
  note f = execute_fields[OF assms(1-3)]
  obtain ns' where ns': "nodes (execute e s) = Some ns'" "length ns' = length ns"
    using f(5) by blast
  have "list_all (knownEdge (nodeIdxMap (execute e s)) (length ns')) es"
    if "edges (execute e s) = Some es" for es
    using that assms(4) knownEnds_knownEdge[where ns = ns] f(6,7) ns'(2)
    by (auto simp: list_all_iff)
  then show ?thesis
    unfolding ready_def using f(8) ns'(1) by (simp split: option.splits)
qed

subsection \<open>Pinned nodes\<close>

text \<open>
  A step that completes ends with \<^verbatim>\<open>updatePosition\<close>, which puts every node that
  has both \<^verbatim>\<open>fx\<close> and \<^verbatim>\<open>fy\<close> at that point; later firings keep it there. A step
  that raises a TypeError changes nothing.
\<close>

lemma pinned_ready:
  assumes "nodes s = Some ns" and "i < length ns"
    and "fx (ns ! i) = Some a" and "fy (ns ! i) = Some b"
    and "ready s" and "map_of (timers s) t = Some cl"
  shows "pinnedAt (fires ts (fire t s)) i a b"
proof -
  obtain vel dt where "nodes (fire t s) = Some (updatePosition vel dt ns)"
    using fire_nodes_ready[OF assms(1,5,6)] by blast
  then have "pinnedAt (fire t s) i a b"
    using assms(2-4)
    by (simp add: pinnedAt_def updatePosition_length updatePosition_nth moveNode_pins)
  then show ?thesis by (rule pinnedAt_fires)
qed

lemma fire_throws:
  assumes "nodes s = Some ns" and "accumulate s ns = Inl err"
  shows "fire t s = s"
  using assms by (simp add: fire_def callback_def split: option.splits)

text \<open>
  An edge whose target is not a listed node: \<^verbatim>\<open>calAttractive\<close> reads a coordinate of
  the missing node and raises a TypeError before \<^verbatim>\<open>updatePosition\<close> is reached, so
  a firing of any timer leaves the instance as it is.
\<close>

lemma dangling_step:
  "nodes (execute browser danglingStart) = Some pinnedNodes"
  "fire t (execute browser danglingStart) = execute browser danglingStart"
proof -
  have pre: "nodes danglingStart = Some pinnedNodes" "2 \<le> length pinnedNodes" "hasWindow browser"
    "list_all numeric pinnedNodes" "edges danglingStart = Some [\<lparr>source = ''a'', target = ''z''\<rparr>]"
    "preventOverlap danglingStart"
    by (simp_all add: danglingStart_def pinnedNodes_def initial_def browser_def
        nodeAt_def numeric_def isNumber_def)
  note f = execute_fields[OF pre(1-3)]
  let ?s = "execute browser danglingStart"
  show n: "nodes ?s = Some pinnedNodes" using f(4) pre(4) by simp
  obtain a1 where a1: "calRepulsive ?s (replicate (2 * length pinnedNodes) 0) pinnedNodes = Inr a1"
    using calRepulsive_total f(8) by blast
  have z: "nodeIdxMap ?s ''z'' = None"
    unfolding f(7) by (simp add: indexMap_def pinnedNodes_def nodeAt_def)
  have "attractEdge ?s distance strength pinnedNodes a1 \<lparr>source = ''a'', target = ''z''\<rparr>
          = Inl TypeError" for distance strength
    using z by (simp add: attractEdge_def nodeMap_def split: option.splits)
  then have "calAttractive ?s pinnedNodes a1 [\<lparr>source = ''a'', target = ''z''\<rparr>] = Inl TypeError"
    by (simp add: calAttractive_def split: valfun.splits)
  then have "accumulate ?s pinnedNodes = Inl TypeError"
    unfolding accumulate_def using a1 f(6) pre(5) by simp
  then show "fire t ?s = ?s" by (rule fire_throws[OF n])
qed

text \<open>
  C3, as stated, fails in two ways. Before the first step a pinned node lies where the
  caller put it: \<^verbatim>\<open>execute\<close> does not move it. And on a graph with an edge to a node
  that is not listed, no step ever reaches \<^verbatim>\<open>updatePosition\<close>: with two nodes, the
  first pinned to \<open>(5, 7)\<close> and lying at the origin, and the edge from \<open>a\<close> to \<open>z\<close>,
  three firings of the timer leave the node list as it was and the pinned node at the
  origin.
\<close>

theorem pinned_position_counterexample:
  "fx (pinnedNodes ! 0) = Some 5 \<and> fy (pinnedNodes ! 0) = Some 7
   \<and> x (pinnedNodes ! 0) = Some 0 \<and> y (pinnedNodes ! 0) = Some 0
   \<and> nodes (execute browser pinnedStart) = Some pinnedNodes
   \<and> \<not> pinnedAt (execute browser pinnedStart) 0 5 7
   \<and> nodes (fires [1, 1, 1] (execute browser danglingStart)) = Some pinnedNodes
   \<and> \<not> pinnedAt (fires [1, 1, 1] (execute browser danglingStart)) 0 5 7"
proof -
  have pre: "nodes pinnedStart = Some pinnedNodes" "2 \<le> length pinnedNodes" "hasWindow browser"
    "list_all numeric pinnedNodes"
    by (simp_all add: pinnedStart_def pinnedNodes_def initial_def browser_def
        nodeAt_def numeric_def isNumber_def)
  have z: "nodes (execute browser pinnedStart) = Some pinnedNodes"
    using execute_fields(4)[OF pre(1-3)] pre(4) by simp
  have "fires [1, 1, 1] (execute browser danglingStart) = execute browser danglingStart"
    by (simp add: fires_def dangling_step(2))
  then show ?thesis
    using dangling_step(1) z by (simp add: pinnedAt_def pinnedNodes_def nodeAt_def)
qed

text \<open>
  C3, amended. For a graph of at least two nodes whose edges all join listed nodes, in a
  browser, and a node \<open>i\<close> whose \<^verbatim>\<open>fx\<close> and \<^verbatim>\<open>fy\<close> are the numbers \<open>a\<close> and
  \<open>b\<close>: after \<^verbatim>\<open>execute\<close> and one step of the timer that it scheduled, followed by
  any further firings of any timers, the node is still pinned to \<open>(a, b)\<close> and its
  position is exactly \<open>(a, b)\<close>, whatever forces the steps accumulate.
\<close>

theorem pinned_position:
  assumes "nodes s = Some ns" and "2 \<le> length ns" and "hasWindow e"
    and "case edges s of None \<Rightarrow> True | Some es \<Rightarrow> list_all (knownEnds ns) es"
    and "i < length ns" and "fx (ns ! i) = Some a" and "fy (ns ! i) = Some b"
  shows "pinnedAt (fires ts (fire (nextTimer s) (execute e s))) i a b"
proof -
  note f = execute_fields[OF assms(1-3)]
  obtain ns' where ns': "nodes (execute e s) = Some ns'" "length ns' = length ns"
    "\<forall>i < length ns. fx (ns' ! i) = fx (ns ! i) \<and> fy (ns' ! i) = fy (ns ! i)"
    using f(5) by blast
  have i: "i < length ns'" "fx (ns' ! i) = Some a" "fy (ns' ! i) = Some b"
    using ns'(2,3) assms(5-7) by simp_all
  have "map_of (timers (execute e s)) (nextTimer s) \<noteq> None"
    unfolding f(2) by (rule map_of_append_key)
  then obtain cl where cl: "map_of (timers (execute e s)) (nextTimer s) = Some cl"
    by blast
  show ?thesis
    by (rule pinned_ready[OF ns'(1) i execute_ready[OF assms(1-4)] cl])
qed

text \<open>
  The amended C3 on two nodes joined by an edge, the first pinned to \<open>(5, 7)\<close> and
  starting at the origin, after three steps.
\<close>

theorem pinned_position_witness:
  "nodes pinnedStart = Some pinnedNodes \<and> 2 \<le> length pinnedNodes \<and> hasWindow browser
   \<and> (case edges pinnedStart of None \<Rightarrow> True | Some es \<Rightarrow> list_all (knownEnds pinnedNodes) es)
   \<and> 0 < length pinnedNodes
   \<and> fx (pinnedNodes ! 0) = Some 5 \<and> fy (pinnedNodes ! 0) = Some 7
   \<and> x (pinnedNodes ! 0) = Some 0 \<and> y (pinnedNodes ! 0) = Some 0
   \<and> nextTimer pinnedStart = 1
   \<and> pinnedAt (fires [1, 1] (fire 1 (execute browser pinnedStart))) 0 5 7"
proof -
  have pre: "nodes pinnedStart = Some pinnedNodes" "2 \<le> length pinnedNodes" "hasWindow browser"
    "case edges pinnedStart of None \<Rightarrow> True | Some es \<Rightarrow> list_all (knownEnds pinnedNodes) es"
    "nextTimer pinnedStart = 1"
    by (simp_all add: pinnedStart_def pinnedNodes_def initial_def browser_def knownEnds_def
        nodeAt_def)
  have n: "0 < length pinnedNodes" "fx (pinnedNodes ! 0) = Some 5" "fy (pinnedNodes ! 0) = Some 7"
    "x (pinnedNodes ! 0) = Some 0" "y (pinnedNodes ! 0) = Some 0"
    by (simp_all add: pinnedNodes_def nodeAt_def)
  show ?thesis
    using pinned_position[OF pre(1-4) n(1,2,3), of "[1, 1]"] pre n by simp
qed

subsection \<open>The end of the layout\<close>

lemma updatePosition_rest:
  assumes "list_all atRest ns"
  shows "updatePosition vel dt ns = ns"
proof (rule nth_equalityI)
  show "length (updatePosition vel dt ns) = length ns" by (rule updatePosition_length)
next
  fix i assume "i < length (updatePosition vel dt ns)"
  then have i: "i < length ns" by (simp add: updatePosition_length)
  then have "atRest (ns ! i)" using assms by (simp add: list_all_length)
  then show "updatePosition vel dt ns ! i = ns ! i"
    using i by (auto simp: updatePosition_nth moveNode_def atRest_def isNumber_def)
qed

lemma movement_same: "movement (map (\<lambda>n. (x n, y n)) ns) ns = 0"
proof -
  have "sum_list (map (\<lambda>(p, n). let vx = num (x n) - num (fst p); vy = num (y n) - num (snd p)
                              in sqrt (vx * vx + vy * vy))
                   (zip (map (\<lambda>n. (x n, y n)) ns) ns)) = 0"
    by (induction ns) simp_all
  then show ?thesis by (simp add: movement_def)
qed

text \<open>
  The number of \<^verbatim>\<open>onLayoutEnd\<close> calls of one step on nodes that are all at rest: one
  for the movement test, when \<^verbatim>\<open>minMovement\<close> is positive, and one more when the counter
  reaches \<^verbatim>\<open>maxIteration\<close>.
\<close>

lemma advance_rest_layoutEnds:
  assumes "list_all atRest ns" and "ns \<noteq> []" and "onLayoutEnd s"
  shows "layoutEnds (advance t cl s ns acc) =
           layoutEnds s + (if 0 < minMovement s then 1 else 0)
                        + (if real (iter cl + 1) \<ge> capMaxIteration cl then 1 else 0)"
  using assms
  unfolding advance_def Let_def
  by (simp add: updatePosition_rest movement_same fireLayoutEnd_def clearOwn_def clearInterval_def
      split: option.splits)

text \<open>
  C2 says that \<^verbatim>\<open>onLayoutEnd\<close> is called at most once per \<^verbatim>\<open>execute\<close>. The
  callback of \<^verbatim>\<open>run\<close> calls it when the mean movement is below \<^verbatim>\<open>minMovement\<close>
  and, without leaving, calls it again when the counter has reached
  \<^verbatim>\<open>maxIteration\<close>. With two nodes pinned where they lie and \<^verbatim>\<open>maxIteration = 1\<close>,
  one \<^verbatim>\<open>execute\<close> and the first step of its timer call it twice.
\<close>

theorem onLayoutEnd_twice:
  "layoutEnds (execute browser twoPinned) = 0
   \<and> layoutEnds (fire 1 (execute browser twoPinned)) = 2"
proof -
  have pre: "nodes twoPinned = Some restNodes" "2 \<le> length restNodes" "hasWindow browser"
    "case edges twoPinned of None \<Rightarrow> True | Some es \<Rightarrow> list_all (knownEnds restNodes) es"
    "freshTimer twoPinned" "list_all numeric restNodes"
    "nextTimer twoPinned = 1" "maxIteration twoPinned = 1" "layoutEnds twoPinned = 0"
    "onLayoutEnd twoPinned" "minMovement twoPinned = 1 / 2"
    "list_all atRest restNodes" "restNodes \<noteq> []"
    by (simp_all add: twoPinned_def restNodes_def initial_def browser_def knownEnds_def
        freshTimer_def restNode_def numeric_def isNumber_def atRest_def)
  note ex = execute_starts[OF pre(1-5)]
  let ?s = "execute browser twoPinned"
  let ?cl = "\<lparr>iter = 0, capMaxIteration = 1\<rparr>"
  have h: "nodes ?s = Some restNodes" "ready ?s" "map_of (timers ?s) 1 = Some ?cl"
    "layoutEnds ?s = 0" "onLayoutEnd ?s" "minMovement ?s = 1 / 2"
    using ex(1,3,5,6,7,10) pre(6-11) by simp_all
  obtain acc where "accumulate ?s restNodes = Inr acc"
    using accumulate_total[OF h(2,1)] by blast
  then have "fire 1 ?s = advance 1 ?cl ?s restNodes acc"
    using h(1,3) by (simp add: fire_def callback_def)
  then have "layoutEnds (fire 1 ?s) = 2"
    using advance_rest_layoutEnds[OF pre(12,13) h(5), of 1 ?cl acc] h(4,6) by simp
  then show ?thesis using h(4) by simp
qed

subsection \<open>A second execute\<close>

text \<open>
  A step of the timer on an instance whose forces are all zero: every free node moves by
  0.01 times the step interval in both coordinates, which never falls below
  \<^verbatim>\<open>minMovement\<close> when that is not positive.
\<close>

lemma foldl_keep: "foldl (\<lambda>a j. a) acc xs = acc"
  by (induction xs) simp_all

lemma repulsePair_zero:
  "\<not> preventOverlap s \<Longrightarrow> repulsePair s (\<lambda>d. 0) sizeOf ns i j acc = acc"
  by (simp add: repulsePair_def addAt_def Let_def)

lemma repulseAll_zero:
  "\<not> preventOverlap s \<Longrightarrow> repulseAll s (\<lambda>d. 0) sizeOf acc ns = acc"
  by (simp add: repulseAll_def repulsePair_zero foldl_keep cong: if_cong)

lemma accumulate_zero:
  assumes "nodeStrength s = FunV (\<lambda>d. 0)" and "\<not> preventOverlap s" and "edges s = Some []"
    and "gravity s = 0" and "getCenter s = None" and "center s \<noteq> None"
  shows "accumulate s ns = Inr (replicate (2 * length ns) 0)"
proof -
  obtain c where c: "center s = Some c" using assms(6) by blast
  have "gravityAt s c ns = (\<lambda>acc i. acc)"
    by (intro ext) (simp add: gravityAt_def Let_def assms(4,5))
  then have g: "calGravity s acc ns = Inr acc" for acc
    by (simp add: calGravity_def c foldl_keep)
  have r: "calRepulsive s acc ns = Inr acc" for acc
    by (simp add: calRepulsive_def assms(1,2) repulseAll_zero)
  show ?thesis
    by (simp add: accumulate_def r g assms(3) calAttractive_def)
qed

lemma movement_nonneg: "0 \<le> movement previousPos ns"
proof -
  have "0 \<le> sum_list (map (\<lambda>(p, n). let vx = num (x n) - num (fst p); vy = num (y n) - num (snd p)
                              in sqrt (vx * vx + vy * vy))
                   (zip previousPos ns))"
    by (rule sum_list_nonneg) (auto simp: Let_def)
  then show ?thesis by (simp add: movement_def)
qed

lemma velocityOf_zero:
  assumes "i < n" and "maxSpeed s = 1000"
  shows "velocityOf s (replicate (2 * n) 0) dt i = (0.01, 0.01)"
  using assms slow_speed
  by (simp add: velocityOf_def orElse_def Let_def)

lemma updatePosition_drift:
  assumes "maxSpeed s = 1000" and "list_all (\<lambda>n. fx n = None) ns"
  shows "updatePosition (updateVelocity s (replicate (2 * length ns) 0)
                           (replicate (2 * length ns) 0) dt ns) dt ns
           = map (\<lambda>n. n\<lparr>x := Some (num (x n) + 0.01 * dt), y := Some (num (y n) + 0.01 * dt)\<rparr>) ns"
proof (rule nth_equalityI)
  show "length (updatePosition (updateVelocity s (replicate (2 * length ns) 0)
                           (replicate (2 * length ns) 0) dt ns) dt ns)
          = length (map (\<lambda>n. n\<lparr>x := Some (num (x n) + 0.01 * dt), y := Some (num (y n) + 0.01 * dt)\<rparr>) ns)"
    by (simp add: updatePosition_length)
next
  fix i
  assume "i < length (updatePosition (updateVelocity s (replicate (2 * length ns) 0)
                           (replicate (2 * length ns) 0) dt ns) dt ns)"
  then have i: "i < length ns" by (simp add: updatePosition_length)
  have v: "updateVelocity s (replicate (2 * length ns) 0) (replicate (2 * length ns) 0) dt ns ! (2 * i) = 0.01"
    "updateVelocity s (replicate (2 * length ns) 0) (replicate (2 * length ns) 0) dt ns ! Suc (2 * i) = 0.01"
    using updateVelocity_nth[OF i, of "replicate (2 * length ns) 0" s "replicate (2 * length ns) 0" dt]
      velocityOf_zero[OF i assms(1), of dt]
    by simp_all
  have "fx (ns ! i) = None" using assms(2) i by (simp add: list_all_length)
  then show "updatePosition (updateVelocity s (replicate (2 * length ns) 0)
                           (replicate (2 * length ns) 0) dt ns) dt ns ! i
          = map (\<lambda>n. n\<lparr>x := Some (num (x n) + 0.01 * dt), y := Some (num (y n) + 0.01 * dt)\<rparr>) ns ! i"
    using i by (simp add: updatePosition_nth moveNode_def isNumber_def Let_def v)
qed

lemma fire_drift_step:
  assumes "nodeStrength s = FunV (\<lambda>d. 0)" and "\<not> preventOverlap s" and "edges s = Some []"
    and "gravity s = 0" and "getCenter s = None" and "center s \<noteq> None"
    and "maxSpeed s = 1000" and "minMovement s \<le> 0"
    and "nodes s = Some ns" and "list_all (\<lambda>n. fx n = None) ns"
    and "map_of (timers s) t = Some cl" and "real (iter cl + 1) < capMaxIteration cl"
  shows "fire t s =
           s\<lparr>nodes := Some (map (\<lambda>n. n\<lparr>x := Some (num (x n) + 0.01 * max 0.02 (interval s - real (iter cl) * 0.002)),
                                      y := Some (num (y n) + 0.01 * max 0.02 (interval s - real (iter cl) * 0.002))\<rparr>) ns),
             tickCalls := tickCalls s + (if tick s then 1 else 0),
             timers := map (\<lambda>(t', c). if t' = t then (t', c\<lparr>iter := iter cl + 1\<rparr>) else (t', c))
                           (timers s)\<rparr>"
proof -
  have "fire t s = advance t cl s ns (replicate (2 * length ns) 0)"
    using assms(9,11) accumulate_zero[OF assms(1-6), of ns] by (simp add: fire_def callback_def)
  moreover have "\<not> movement p ns' < minMovement s" for p ns'
    using movement_nonneg[of p ns'] assms(8) by simp
  ultimately show ?thesis
    using assms(12)
    unfolding advance_def Let_def updatePosition_drift[OF assms(7,10)]
    by simp
qed

text \<open>
  C4, as stated, fails for \<^verbatim>\<open>GForceLayout\<close>, which has no running flag: its
  \<^verbatim>\<open>execute\<close> clears the scheduled interval and goes on to \<^verbatim>\<open>run\<close>, which
  schedules a new one with \<^verbatim>\<open>iter = 0\<close>. On the instance \<open>midRun\<close>, whose timer 1
  has done three steps, a second \<^verbatim>\<open>execute\<close> replaces timer 1 and its counter 3 by
  timer 2 with the counter 0 and leaves the nodes where they are. The step interval is
  \<^verbatim>\<open>Math.max(0.02, interval - iter * 0.002)\<close>, so the next step of the new timer is a
  first step again: it moves the nodes by 0.01, where the fourth step of the run in
  progress would have moved them by 0.00994.
\<close>

theorem execute_reentrant_counterexample:
  "timeInterval midRun = Some 1
   \<and> timers midRun = [(1, \<lparr>iter = 3, capMaxIteration = 1000\<rparr>)]
   \<and> timers (execute browser midRun) = [(2, \<lparr>iter = 0, capMaxIteration = 1000\<rparr>)]
   \<and> execute browser midRun \<noteq> midRun
   \<and> nodes (execute browser midRun) = nodes midRun
   \<and> nodes (fire 1 midRun)
        = Some [nodeAt ''a'' 0.03988 0.03988, nodeAt ''b'' 100.03988 0.03988]
   \<and> nodes (fire 2 (execute browser midRun))
        = Some [nodeAt ''a'' 0.03994 0.03994, nodeAt ''b'' 100.03994 0.03994]"
proof -
  define cfg where "cfg s \<longleftrightarrow>
      nodeStrength s = FunV (\<lambda>d. 0) \<and> \<not> preventOverlap s \<and> edges s = Some [] \<and> gravity s = 0
      \<and> getCenter s = None \<and> center s \<noteq> None \<and> maxSpeed s = 1000 \<and> minMovement s = 0
      \<and> interval s = 1 \<and> maxIteration s = 1000" for s :: gforce
  define inv where "inv t i p s \<longleftrightarrow>
      cfg s \<and> nodes s = Some [nodeAt ''a'' p p, nodeAt ''b'' (100 + p) p]
      \<and> timeInterval s = Some t \<and> timers s = [(t, \<lparr>iter = i, capMaxIteration = 1000\<rparr>)]
      \<and> nextTimer s = t + 1" for t i p and s :: gforce
  have restart: "inv (t + 1) 0 p (execute browser s)" if "inv t i p s" for t i p s
  proof -
    from that have h: "nodes s = Some [nodeAt ''a'' p p, nodeAt ''b'' (100 + p) p]"
      "2 \<le> length [nodeAt ''a'' p p, nodeAt ''b'' (100 + p) p]" "hasWindow browser"
      "list_all numeric [nodeAt ''a'' p p, nodeAt ''b'' (100 + p) p]"
      by (simp_all add: inv_def browser_def nodeAt_def numeric_def isNumber_def)
    note f = execute_fields[OF h(1-3)]
    show ?thesis
      using that f(1,2,3,4,6,8,9,10) h(4)
      by (simp add: inv_def cfg_def proccessToFunc_def)
  qed
  have step: "inv t (Suc i) (p + (1 - real i * 0.002) / 100) (fire t s)"
    if "inv t i p s" and "i < 10" for t i p s
  proof -
    from that have h: "nodeStrength s = FunV (\<lambda>d. 0)" "\<not> preventOverlap s" "edges s = Some []"
      "gravity s = 0" "getCenter s = None" "center s \<noteq> None" "maxSpeed s = 1000"
      "minMovement s \<le> 0" "nodes s = Some [nodeAt ''a'' p p, nodeAt ''b'' (100 + p) p]"
      "list_all (\<lambda>n. fx n = None) [nodeAt ''a'' p p, nodeAt ''b'' (100 + p) p]"
      "map_of (timers s) t = Some \<lparr>iter = i, capMaxIteration = 1000\<rparr>"
      "real (iter \<lparr>iter = i, capMaxIteration = 1000\<rparr> + 1)
         < capMaxIteration \<lparr>iter = i, capMaxIteration = 1000\<rparr>"
      by (simp_all add: inv_def cfg_def nodeAt_def)
    have dt: "max 0.02 (interval s - real (iter \<lparr>iter = i, capMaxIteration = 1000\<rparr>) * 0.002)
                = 1 - real i * 0.002"
      using that by (simp add: inv_def cfg_def max_def)
    show ?thesis
      using that(1) unfolding fire_drift_step[OF h] dt inv_def cfg_def
      by (simp add: nodeAt_def num_def)
  qed
  have pre: "nodes drifting = Some [nodeAt ''a'' 0 0, nodeAt ''b'' (100 + 0) 0]"
    "2 \<le> length [nodeAt ''a'' 0 0, nodeAt ''b'' (100 + 0) (0::real)]" "hasWindow browser"
    "list_all numeric [nodeAt ''a'' 0 0, nodeAt ''b'' (100 + 0) 0]"
    "cfg (drifting\<lparr>center := Some (150, 150)\<rparr>)" "timeInterval drifting = None"
    "timers drifting = []" "nextTimer drifting = 1"
    by (simp_all add: drifting_def initial_def browser_def nodeAt_def numeric_def isNumber_def
        cfg_def)
  note f = execute_fields[OF pre(1-3)]
  have base: "inv 1 0 0 (execute browser drifting)"
    using f(1,2,3,4,6,8,9,10) pre(4-8)
    by (simp add: inv_def cfg_def proccessToFunc_def)
  have "inv 1 3 (2994 / 100000) (fire 1 (fire 1 (fire 1 (execute browser drifting))))"
    using step[OF step[OF step[OF base]]] by (simp add: numeral_3_eq_3)
  then have mid: "inv 1 3 (2994 / 100000) midRun"
    by (simp add: midRun_def fires_def)
  have a: "inv 1 4 (3988 / 100000) (fire 1 midRun)"
    using step[OF mid] by simp
  have b: "inv 2 1 (3994 / 100000) (fire 2 (execute browser midRun))"
    using step[OF restart[OF mid]] by (simp add: numeral_2_eq_2)
  have r: "inv 2 0 (2994 / 100000) (execute browser midRun)"
    using restart[OF mid] by (simp add: numeral_2_eq_2)
  have "execute browser midRun \<noteq> midRun"
    using mid r by (auto simp: inv_def)
  then show ?thesis
    using mid a b r by (simp add: inv_def)
qed

text \<open>
  C4, amended. A \<^verbatim>\<open>ForceLayout\<close> (the d3-force layout) whose \<^verbatim>\<open>ticking\<close> flag is
  set ignores \<^verbatim>\<open>execute\<close>: the instance is unchanged. A \<^verbatim>\<open>GForceLayout\<close> with a
  scheduled timer \<open>t\<close>, at least two nodes with numeric coordinates and a window
  restarts: \<^verbatim>\<open>execute\<close> removes \<open>t\<close> from the timer table and adds exactly one new
  timer, whose iteration counter is 0, and the call itself leaves the nodes as they are.
\<close>

theorem execute_restarts:
  assumes "nodes s = Some ns" and "2 \<le> length ns" and "list_all numeric ns"
    and "hasWindow e" and "timeInterval s = Some t"
  shows "timers (execute e s) =
           filter (\<lambda>(u, c). u \<noteq> t) (timers s)
             @ [(nextTimer s, \<lparr>iter = 0, capMaxIteration = maxIteration s\<rparr>)]
       \<and> timeInterval (execute e s) = Some (nextTimer s)
       \<and> nodes (execute e s) = Some ns
       \<and> (ticking f = Some True \<longrightarrow> f_execute d3 inWorker reloadData f = f)"
  using execute_fields(1,2,4)[OF assms(1,2,4)] assms(3,5)
  by (simp add: f_execute_def)

text \<open>The amended C4 on a second \<^verbatim>\<open>execute\<close> right after the first, and on a ticking \<^verbatim>\<open>ForceLayout\<close>.\<close>

theorem execute_restarts_witness:
  "nodes (execute browser steady) = Some restNodes
   \<and> 2 \<le> length restNodes \<and> list_all numeric restNodes \<and> hasWindow browser
   \<and> timeInterval (execute browser steady) = Some 1
   \<and> timers (execute browser steady) = [(1, \<lparr>iter = 0, capMaxIteration = 1000\<rparr>)]
   \<and> timers (execute browser (execute browser steady)) = [(2, \<lparr>iter = 0, capMaxIteration = 1000\<rparr>)]
   \<and> timeInterval (execute browser (execute browser steady)) = Some 2
   \<and> nodes (execute browser (execute browser steady)) = Some restNodes
   \<and> ticking tickingLayout = Some True
   \<and> f_execute noD3 False False tickingLayout = tickingLayout"
proof -
  have rest: "2 \<le> length restNodes" "list_all numeric restNodes"
    by (simp_all add: restNodes_def restNode_def numeric_def isNumber_def)
  have pre: "nodes steady = Some restNodes" "hasWindow browser"
    "nextTimer steady = 1" "maxIteration steady = 1000"
    "timeInterval steady = None" "timers steady = []"
    by (simp_all add: steady_def initial_def browser_def)
  note ex = execute_fields[OF pre(1) rest(1) pre(2)]
  have h: "nodes (execute browser steady) = Some restNodes"
    "timeInterval (execute browser steady) = Some 1"
    "timers (execute browser steady) = [(1, \<lparr>iter = 0, capMaxIteration = 1000\<rparr>)]"
    "nextTimer (execute browser steady) = 2" "maxIteration (execute browser steady) = 1000"
    using ex(1,2,3,4,10) pre(3-6) rest(2) by simp_all
  show ?thesis
    using execute_restarts[OF h(1) rest(1,2) pre(2) h(2),
        where f = tickingLayout and ?d3.0 = noD3 and inWorker = False and reloadData = False]
      h rest pre(2)
    by (simp add: tickingLayout_def)
qed

subsection \<open>No nodes\<close>

text \<open>
  C9. With no nodes, \<^verbatim>\<open>execute\<close> of \<^verbatim>\<open>GForceLayout\<close> calls \<^verbatim>\<open>onLayoutEnd\<close> once
  when it is set, leaves the node list as it is, draws no random coordinate and schedules
  no timer; \<^verbatim>\<open>execute\<close> of \<^verbatim>\<open>CircularLayout\<close> returns nothing and leaves the
  instance unchanged but for the one call of \<^verbatim>\<open>onLayoutEnd\<close> when it is set.
\<close>

theorem no_nodes:
  assumes "nodes s = None \<or> nodes s = Some []" and "c_nodes c = []"
  shows "layoutEnds (execute e s) = layoutEnds s + (if onLayoutEnd s then 1 else 0)
       \<and> nodes (execute e s) = nodes s
       \<and> randomCalls (execute e s) = randomCalls s
       \<and> set (timers (execute e s)) \<subseteq> set (timers s)
       \<and> c_execute e c
           = Inr (c\<lparr>c_layoutEnds := c_layoutEnds c + (if c_onLayoutEnd c then 1 else 0)\<rparr>, None)"
proof -
  define s0 where "s0 = (if timeInterval s \<noteq> None \<and> hasWindow e then clearOwn s else s)"
  have s0: "nodes s0 = nodes s" "layoutEnds s0 = layoutEnds s" "onLayoutEnd s0 = onLayoutEnd s"
    "randomCalls s0 = randomCalls s" "set (timers s0) \<subseteq> set (timers s)"
    unfolding s0_def by (auto simp: clearOwn_def clearInterval_def split: option.splits)
  have "execute e s = fireLayoutEnd s0"
    using assms(1) s0(1) unfolding execute_def s0_def[symmetric] by (auto simp: Let_def)
  then have g: "layoutEnds (execute e s) = layoutEnds s + (if onLayoutEnd s then 1 else 0)"
    "nodes (execute e s) = nodes s" "randomCalls (execute e s) = randomCalls s"
    "set (timers (execute e s)) \<subseteq> set (timers s)"
    using s0 by (simp_all add: fireLayoutEnd_def)
  have "c_execute e c
           = Inr (c\<lparr>c_layoutEnds := c_layoutEnds c + (if c_onLayoutEnd c then 1 else 0)\<rparr>, None)"
    using assms(2) by (simp add: c_execute_def c_fireLayoutEnd_def Let_def)
  then show ?thesis using g by simp
qed

text \<open>C9 on the initial instances with an \<^verbatim>\<open>onLayoutEnd\<close> callback.\<close>

theorem no_nodes_witness:
  "nodes (initial\<lparr>onLayoutEnd := True\<rparr>) = Some [] \<and> c_nodes (c_initial\<lparr>c_onLayoutEnd := True\<rparr>) = []
   \<and> layoutEnds (execute browser (initial\<lparr>onLayoutEnd := True\<rparr>)) = 1
   \<and> nodes (execute browser (initial\<lparr>onLayoutEnd := True\<rparr>)) = Some []
   \<and> timers (execute browser (initial\<lparr>onLayoutEnd := True\<rparr>)) = []
   \<and> c_execute browser (c_initial\<lparr>c_onLayoutEnd := True\<rparr>)
       = Inr (c_initial\<lparr>c_onLayoutEnd := True, c_layoutEnds := 1\<rparr>, None)"
  using no_nodes[of "initial\<lparr>onLayoutEnd := True\<rparr>" "c_initial\<lparr>c_onLayoutEnd := True\<rparr>" browser]
  by (simp add: initial_def c_initial_def)

section \<open>Properties: circular.ts\<close>

subsection \<open>degreeOrdering\<close>

lemma insertBy_insort_key:
  assumes "\<And>b. b \<in> set bs \<Longrightarrow> (cmp a b \<le> 0) = (key a \<le> key b)"
  shows "insertBy cmp a bs = insort_key key a bs"
  using assms by (induction bs) simp_all

lemma arraySort_sort_key:
  assumes "\<And>a b. a \<in> set xs \<Longrightarrow> b \<in> set xs \<Longrightarrow> (cmp a b \<le> 0) = (key a \<le> (key b :: nat))"
  shows "arraySort cmp xs = sort_key key xs"
proof -
  have "set ys \<subseteq> set xs \<Longrightarrow> foldr (insertBy cmp) ys [] = sort_key key ys" for ys
  proof (induction ys)
    case Nil
    then show ?case by (simp add: sort_key_def)
  next
    case (Cons a ys)
    then have ih: "foldr (insertBy cmp) ys [] = sort_key key ys" by simp
    have "insertBy cmp a (sort_key key ys) = insort_key key a (sort_key key ys)"
      using Cons.prems assms by (intro insertBy_insort_key) auto
    then show ?case using ih by (simp add: sort_key_def)
  qed
  then show ?thesis by (simp add: arraySort_def)
qed

lemma degreeOrdering_nodes:
  assumes "i < length ns"
  shows "fst (degreeOrdering ns degs) ! i = (ns ! i)\<lparr>degree := elemAt degs i\<rparr>"
  using assms by (simp add: degreeOrdering_def Let_def nth_enumerate_eq)

lemma degreeOrdering_length: "length (fst (degreeOrdering ns degs)) = length ns"
  by (simp add: degreeOrdering_def Let_def)

lemma degreeOrdering_refs:
  assumes "length degs = length ns"
  shows "snd (degreeOrdering ns degs) = map Some (sort_key (\<lambda>i. degs ! i) [0 ..< length ns])"
proof -
  let ?ns' = "fst (degreeOrdering ns degs)"
  have "arraySort (\<lambda>a b. compareDegree (?ns' ! a) (?ns' ! b)) [0 ..< length ns]
          = sort_key (\<lambda>i. degs ! i) [0 ..< length ns]"
  proof (rule arraySort_sort_key)
    fix a b assume "a \<in> set [0 ..< length ns]" "b \<in> set [0 ..< length ns]"
    then have "a < length ns" "b < length ns" by simp_all
    then show "(compareDegree (?ns' ! a) (?ns' ! b) \<le> 0) = (degs ! a \<le> degs ! b)"
      using assms by (simp add: degreeOrdering_nodes compareDegree_def elemAt_def)
  qed
  then show ?thesis
    by (simp add: degreeOrdering_def Let_def)
qed



subsection \<open>topologyOrdering\<close>

lemma indexMap_distinct:
  assumes "distinct ids" and "i < length ids"
  shows "indexMap ids (ids ! i) = Some i"
proof -
  have "distinct ids \<Longrightarrow> i < length ids \<Longrightarrow>
          foldl (\<lambda>m (i, k). m(k \<mapsto> i)) m (enumerate n ids) (ids ! i) = Some (n + i)" for m n
  proof (induction ids arbitrary: m n i)
    case Nil
    then show ?case by simp
  next
    case (Cons a ids)
    show ?case
    proof (cases i)
      case 0
      have "foldl (\<lambda>m (i, k). m(k \<mapsto> i)) (m(a \<mapsto> n)) (enumerate (Suc n) ids) a = (m(a \<mapsto> n)) a"
        using Cons.prems by (intro indexMap_fold_other) simp
      then show ?thesis using 0 by (simp del: fun_upd_apply add: fun_upd_same)
    next
      case (Suc j)
      then show ?thesis using Cons.IH[of j "m(a \<mapsto> n)" "Suc n"] Cons.prems by simp
    qed
  qed
  then show ?thesis using assms by (simp add: indexMap_def)
qed

lemma endIdx_known:
  assumes "knownRef ns r" and "ns \<noteq> []"
  shows "\<exists>i. endIdx (indexMap (map cid ns)) r = Some i \<and> i < length ns"
proof (cases "r = []")
  case True
  then show ?thesis using assms(2) by (simp add: endIdx_def)
next
  case False
  then have "r \<in> set (map cid ns)" using assms(1) by (simp add: knownRef_def)
  then show ?thesis using indexMap_known[of r "map cid ns"] False by (simp add: endIdx_def)
qed

lemma hierarchy_update:
  assumes "hierarchy ns cs" and "i < length cs" and "j < length cs"
  shows "hierarchy ns (cs[i := (cs ! i)\<lparr>children := children (cs ! i) @ [cid (cs ! j)]\<rparr>])"
    and "hierarchy ns (cs[i := (cs ! i)\<lparr>parent := parent (cs ! i) @ [cid (cs ! j)]\<rparr>])"
proof -
  have ids: "map cid cs = map cid ns" and ch: "\<forall>c \<in> set cs. set (children c) \<subseteq> set (map cid ns)"
    using assms(1) by (simp_all add: hierarchy_def)
  have upd: "(map cid cs)[i := cid (cs ! i)] = map cid cs"
    using assms(2) by (metis list_update_id nth_map)
  have cj: "cid (cs ! j) \<in> set (map cid ns)"
    using assms(3) ids by (metis length_map nth_map nth_mem)
  have ci: "set (children (cs ! i)) \<subseteq> set (map cid ns)" using ch assms(2) by simp
  show "hierarchy ns (cs[i := (cs ! i)\<lparr>children := children (cs ! i) @ [cid (cs ! j)]\<rparr>])"
    unfolding hierarchy_def
  proof (intro conjI ballI)
    show "map cid (cs[i := (cs ! i)\<lparr>children := children (cs ! i) @ [cid (cs ! j)]\<rparr>]) = map cid ns"
      using ids upd by (simp add: map_update)
  next
    fix c assume "c \<in> set (cs[i := (cs ! i)\<lparr>children := children (cs ! i) @ [cid (cs ! j)]\<rparr>])"
    then have "c = (cs ! i)\<lparr>children := children (cs ! i) @ [cid (cs ! j)]\<rparr> \<or> c \<in> set cs"
      by (meson insertE set_update_subset_insert subsetD)
    then show "set (children c) \<subseteq> set (map cid ns)" using ci cj ch by auto
  qed
  show "hierarchy ns (cs[i := (cs ! i)\<lparr>parent := parent (cs ! i) @ [cid (cs ! j)]\<rparr>])"
    unfolding hierarchy_def
  proof (intro conjI ballI)
    show "map cid (cs[i := (cs ! i)\<lparr>parent := parent (cs ! i) @ [cid (cs ! j)]\<rparr>]) = map cid ns"
      using ids upd by (simp add: map_update)
  next
    fix c assume "c \<in> set (cs[i := (cs ! i)\<lparr>parent := parent (cs ! i) @ [cid (cs ! j)]\<rparr>])"
    then have "c = (cs ! i)\<lparr>parent := parent (cs ! i) @ [cid (cs ! j)]\<rparr> \<or> c \<in> set cs"
      by (meson insertE set_update_subset_insert subsetD)
    then show "set (children c) \<subseteq> set (map cid ns)" using ci ch by auto
  qed
qed

lemma hierarchy_length: "hierarchy ns cs \<Longrightarrow> length cs = length ns"
  by (metis hierarchy_def length_map)

lemma linkEdge_hierarchy:
  assumes "hierarchy ns cs" and "knownEndsC ns e" and "ns \<noteq> []"
  shows "\<exists>cs'. linkEdge (indexMap (map cid ns)) directed cs e = Inr cs' \<and> hierarchy ns cs'"
proof -
  obtain i j where i: "endIdx (indexMap (map cid ns)) (source e) = Some i" "i < length ns"
    and j: "endIdx (indexMap (map cid ns)) (target e) = Some j" "j < length ns"
    using assms(2,3) endIdx_known unfolding knownEndsC_def by blast
  have len: "length cs = length ns" using assms(1) by (rule hierarchy_length)
  let ?c1 = "cs[i := (cs ! i)\<lparr>children := children (cs ! i) @ [cid (cs ! j)]\<rparr>]"
  have h1: "hierarchy ns ?c1" using hierarchy_update(1)[OF assms(1)] i j len by simp
  have l1: "length ?c1 = length ns" using len by simp
  have "hierarchy ns (?c1[j := (?c1 ! j)\<lparr>parent := parent (?c1 ! j) @ [cid (?c1 ! i)]\<rparr>])"
    "hierarchy ns (?c1[j := (?c1 ! j)\<lparr>children := children (?c1 ! j) @ [cid (?c1 ! i)]\<rparr>])"
    using hierarchy_update[OF h1, of j i] i j l1 by simp_all
  then show ?thesis
    using i j len by (simp add: linkEdge_def Let_def)
qed

lemma linkEdges_hierarchy:
  assumes "hierarchy ns cs" and "list_all (knownEndsC ns) es" and "ns \<noteq> []"
  shows "\<exists>cs'. linkEdges (indexMap (map cid ns)) directed cs es = Inr cs' \<and> hierarchy ns cs'"
  using assms
proof (induction es arbitrary: cs)
  case Nil
  then show ?case by simp
next
  case (Cons e es)
  then obtain cs1 where "linkEdge (indexMap (map cid ns)) directed cs e = Inr cs1" "hierarchy ns cs1"
    using linkEdge_hierarchy[of ns cs e directed] by auto
  then show ?case using Cons by simp
qed

lemma initHierarchy_hierarchy:
  assumes "list_all (knownEndsC ns) es" and "ns \<noteq> []"
  shows "\<exists>cs. initHierarchy ns es (indexMap (map cid ns)) directed = Inr cs \<and> hierarchy ns cs"
proof -
  have "hierarchy ns (map (\<lambda>n. n\<lparr>children := [], parent := []\<rparr>) ns)"
    by (simp add: hierarchy_def comp_def)
  then show ?thesis
    using linkEdges_hierarchy[OF _ assms] by (simp add: initHierarchy_def)
qed


lemma pickNode_inv:
  assumes "topoInv ns cs m t idxs" and "hierarchy ns cs" and "distinct (map cid ns)"
    and "j < length ns" and "\<not> pickFlags t j"
  shows "topoInv ns cs (Suc m) (pickNode (indexMap (map cid ns)) cs j t) (idxs @ [j])"
    and "topoInv ns cs (Suc m)
           ((pickNode (indexMap (map cid ns)) cs j t)\<lparr>topK := topK t + 1\<rparr>) (idxs @ [j])"
proof -
  have len: "length cs = length ns" using assms(2) by (rule hierarchy_length)
  have "cid (cs ! j) = map cid ns ! j"
    using assms(2,4) len unfolding hierarchy_def by (metis nth_map)
  then have ref: "indexMap (map cid ns) (cid (cs ! j)) = Some j"
    using indexMap_distinct[OF assms(3), of j] assms(4) by simp
  have mem: "cs ! j \<in> set cs" using assms(4) len by simp
  have fresh: "j \<notin> set idxs" using assms(1,5) by (simp add: topoInv_def)
  show "topoInv ns cs (Suc m) (pickNode (indexMap (map cid ns)) cs j t) (idxs @ [j])"
    using assms(1,4) ref mem fresh unfolding topoInv_def pickNode_def by auto
  show "topoInv ns cs (Suc m)
           ((pickNode (indexMap (map cid ns)) cs j t)\<lparr>topK := topK t + 1\<rparr>) (idxs @ [j])"
    using assms(1,4) ref mem fresh unfolding topoInv_def pickNode_def by auto
qed

lemma findChild_ok:
  assumes "set chs \<subseteq> set (map cid ns)"
  shows "\<exists>r. findChild (indexMap (map cid ns)) degs pick (length ns) i chs = Inr r
             \<and> (\<forall>ci. r = Some ci \<longrightarrow> ci < length ns \<and> \<not> pick ci)"
  using assms
proof (induction chs)
  case Nil
  then show ?case by simp
next
  case (Cons c chs)
  then obtain j where j: "indexMap (map cid ns) c = Some j" "j < length ns"
    using indexMap_known[of c "map cid ns"] by auto
  from Cons obtain r where ih: "findChild (indexMap (map cid ns)) degs pick (length ns) i chs = Inr r"
    "\<forall>ci. r = Some ci \<longrightarrow> ci < length ns \<and> \<not> pick ci"
    by auto
  show ?case
  proof (cases "elemAt degs j = elemAt degs i \<and> \<not> pick j")
    case True
    then have "findChild (indexMap (map cid ns)) degs pick (length ns) i (c # chs) = Inr (Some j)"
      using j by simp
    then show ?thesis using True j(2) by simp
  next
    case False
    then have "findChild (indexMap (map cid ns)) degs pick (length ns) i (c # chs) = Inr r"
      using j ih(1) by auto
    then show ?thesis using ih(2) by simp
  qed
qed

lemma firstFree_ok:
  assumes "j < n" and "\<not> pick j"
  shows "\<exists>ii. firstFree pick n = Some ii \<and> ii < n \<and> \<not> pick ii"
proof (cases "firstFree pick n")
  case None
  then have "\<not> (\<exists>i. i \<in> set [0 ..< n] \<and> \<not> pick i)"
    unfolding firstFree_def find_None_iff .
  moreover have "j \<in> set [0 ..< n]" using assms(1) by simp
  ultimately show ?thesis using assms(2) by blast
next
  case (Some ii)
  then obtain i where "i < length [0 ..< n]" "\<not> pick ([0 ..< n] ! i)" "ii = [0 ..< n] ! i"
    unfolding firstFree_def find_Some_iff by blast
  then have "ii < n" "\<not> pick ii" by simp_all
  then show ?thesis using Some by simp
qed

lemma topoInv_free:
  assumes "topoInv ns cs m t idxs" and "m < length ns"
  shows "\<exists>j < length ns. \<not> pickFlags t j"
proof -
  have "card (set idxs) = m" using assms(1) by (simp add: topoInv_def distinct_card)
  then have "set idxs \<noteq> {..< length ns}" using assms(2) by (metis card_lessThan nat_neq_iff)
  moreover have "set idxs \<subseteq> {..< length ns}" using assms(1) by (simp add: topoInv_def)
  ultimately obtain j where "j < length ns" "j \<notin> set idxs" by blast
  moreover have "pickFlags t j = (j \<in> set idxs)" using assms(1) by (simp add: topoInv_def)
  ultimately show ?thesis by blast
qed

lemma topoStep_inv:
  assumes "topoInv ns cs m t idxs" and "hierarchy ns cs" and "distinct (map cid ns)"
    and "m < length ns" and "i < length ns"
  shows "\<exists>t' idxs'. topoStep (indexMap (map cid ns)) degs es cs i t = Inr t'
                    \<and> topoInv ns cs (Suc m) t' idxs'"
proof -
  have len: "length cs = length ns" using assms(2) by (rule hierarchy_length)
  let ?cond = "(i = length cs - 1 \<or> elemAt degs i \<noteq> elemAt degs (i + 1)
               \<or> connect (orderedCNodes t ! topK t) (cs ! i) es) \<and> \<not> pickFlags t i"
  let ?nm = "indexMap (map cid ns)"
  have ts: "topoStep ?nm degs es cs i t =
       (if ?cond then Inr ((pickNode ?nm cs i t)\<lparr>topK := topK t + 1\<rparr>)
        else (case findChild ?nm degs (pickFlags t) (length ns) i
                     (children (orderedCNodes t ! topK t)) of
                 Inl err \<Rightarrow> Inl err
               | Inr (Some childIdx) \<Rightarrow> Inr (pickNode ?nm cs childIdx t)
               | Inr None \<Rightarrow>
                   (case firstFree (pickFlags t) (length ns) of
                      Some ii \<Rightarrow> Inr (pickNode ?nm cs ii t)
                    | None \<Rightarrow> Inr t)))"
    by (simp only: topoStep_def Let_def len)
  show ?thesis
  proof (cases ?cond)
    case True
    have "topoStep (indexMap (map cid ns)) degs es cs i t
                 = Inr ((pickNode (indexMap (map cid ns)) cs i t)\<lparr>topK := topK t + 1\<rparr>)"
      unfolding ts by (rule if_P[OF True])
    moreover have "\<not> pickFlags t i" using True by (rule conjunct2)
    ultimately show ?thesis
      using pickNode_inv(2)[OF assms(1,2,3,5)] by blast
  next
    case False
    have "orderedCNodes t ! topK t \<in> set cs"
      using assms(1) unfolding topoInv_def by (meson nth_mem subsetD)
    then have "set (children (orderedCNodes t ! topK t)) \<subseteq> set (map cid ns)"
      using assms(2) by (simp add: hierarchy_def)
    then obtain r where r: "findChild (indexMap (map cid ns)) degs (pickFlags t) (length ns) i
                              (children (orderedCNodes t ! topK t)) = Inr r"
      "\<forall>ci. r = Some ci \<longrightarrow> ci < length ns \<and> \<not> pickFlags t ci"
      using findChild_ok by blast
    show ?thesis
    proof (cases r)
      case (Some ci)
      then have "topoStep (indexMap (map cid ns)) degs es cs i t
                   = Inr (pickNode (indexMap (map cid ns)) cs ci t)"
        using r(1) by (simp only: ts if_not_P[OF False] sum.case option.case)
      moreover have "ci < length ns" "\<not> pickFlags t ci" using r(2) Some by simp_all
      ultimately show ?thesis
        using pickNode_inv(1)[OF assms(1,2,3)] by blast
    next
      case None
      obtain j where "j < length ns" "\<not> pickFlags t j"
        using topoInv_free[OF assms(1,4)] by blast
      then obtain ii where ii: "firstFree (pickFlags t) (length ns) = Some ii" "ii < length ns"
        "\<not> pickFlags t ii"
        using firstFree_ok by blast
      then have "topoStep (indexMap (map cid ns)) degs es cs i t
                   = Inr (pickNode (indexMap (map cid ns)) cs ii t)"
        using r(1) None by (simp only: ts if_not_P[OF False] sum.case option.case)
      then show ?thesis
        using pickNode_inv(1)[OF assms(1,2,3) ii(2,3)] by blast
    qed
  qed
qed

lemma topoLoop_inv:
  assumes "topoInv ns cs m t idxs" and "hierarchy ns cs" and "distinct (map cid ns)"
    and "m + length js \<le> length ns" and "\<forall>i \<in> set js. i < length ns"
  shows "\<exists>t' idxs'. topoLoop (indexMap (map cid ns)) degs es cs js t = Inr t'
                    \<and> topoInv ns cs (m + length js) t' idxs'"
  using assms(1,4,5)
proof (induction js arbitrary: m t idxs)
  case Nil
  then show ?case by auto
next
  case (Cons i js)
  then have "m < length ns" "i < length ns" by simp_all
  then obtain t1 idxs1 where s1: "topoStep (indexMap (map cid ns)) degs es cs i t = Inr t1"
    "topoInv ns cs (Suc m) t1 idxs1"
    using topoStep_inv[OF Cons.prems(1) assms(2,3)] by blast
  obtain t' idxs' where "topoLoop (indexMap (map cid ns)) degs es cs js t1 = Inr t'"
    "topoInv ns cs (Suc m + length js) t' idxs'"
    using Cons.IH[OF s1(2)] Cons.prems(2,3) by auto
  then show ?case using s1(1) by auto
qed

lemma topologyOrdering_refs:
  assumes "ns \<noteq> []" and "distinct (map cid ns)" and "list_all (knownEndsC ns) es"
  shows "\<exists>idxs. topologyOrdering directed ns es (indexMap (map cid ns)) degs = Inr (map Some idxs)
                \<and> distinct idxs \<and> set idxs = {..< length ns}"
proof -
  obtain cs where cs: "initHierarchy ns es (indexMap (map cid ns)) directed = Inr cs"
    "hierarchy ns cs"
    using initHierarchy_hierarchy[OF assms(3,1)] by blast
  have len: "length cs = length ns" using cs(2) by (rule hierarchy_length)
  then have ne: "cs \<noteq> []" using assms(1) by auto
  let ?t0 = "\<lparr>orderedCNodes = take 1 cs, resNodes = [if ns = [] then None else Some 0],
              pickFlags = (\<lambda>j. False)(0 := True), topK = 0\<rparr>"
  have "set (take 1 cs) \<subseteq> set cs" by (rule set_take_subset)
  then have inv0: "topoInv ns cs 1 ?t0 [0]"
    using assms(1) ne by (auto simp: topoInv_def)
  have "1 + length [1 ..< length cs] \<le> length ns" "\<forall>i \<in> set [1 ..< length cs]. i < length ns"
    using len assms(1) by (auto simp: Suc_leI)
  then obtain t' idxs where loop: "topoLoop (indexMap (map cid ns)) degs es cs [1 ..< length cs] ?t0 = Inr t'"
    "topoInv ns cs (1 + length [1 ..< length cs]) t' idxs"
    using topoLoop_inv[OF inv0 cs(2) assms(2)] by blast
  have n: "1 + length [1 ..< length cs] = length ns" using len assms(1) by (simp add: Suc_leI)
  have d: "distinct idxs" "length idxs = length ns" "set idxs \<subseteq> {..< length ns}"
    "resNodes t' = map Some idxs"
    using loop(2) n by (simp_all add: topoInv_def)
  have "card (set idxs) = card {..< length ns}" using d(1,2) by (simp add: distinct_card)
  then have "set idxs = {..< length ns}" using d(3) by (simp add: card_subset_eq)
  moreover have "topologyOrdering directed ns es (indexMap (map cid ns)) degs = Inr (map Some idxs)"
    using cs(1) loop(1) d(4) by (simp add: topologyOrdering_def)
  ultimately show ?thesis using d(1) by blast
qed






subsection \<open>Placement\<close>

lemma placeAll_append:
  "placeAll c ctr rad sR eR astep divN degs refs ns (js @ [i]) =
     (case placeAll c ctr rad sR eR astep divN degs refs ns js of
        Inl err \<Rightarrow> Inl err
      | Inr ns' \<Rightarrow> placeNode c ctr rad sR eR astep divN degs refs ns' i)"
  by (induction js arbitrary: ns) (auto split: sum.splits)

lemma placeAll_prefix:
  assumes "distinct idxs" and "set idxs = {..< length ns}" and "length idxs = length ns"
    and "m \<le> length ns"
  shows "\<exists>ns'. placeAll c ctr rad sR eR astep divN degs (map Some idxs) ns [0 ..< m] = Inr ns'
           \<and> length ns' = length ns
           \<and> (\<forall>i < length ns. ns' ! (idxs ! i) =
                  (if i < m then placed c ctr rad sR eR astep divN degs (length ns) i (ns ! (idxs ! i))
                   else ns ! (idxs ! i)))"
  using assms(4)
proof (induction m)
  case 0
  then show ?case by simp
next
  case (Suc m)
  then obtain ns1 where ns1:
    "placeAll c ctr rad sR eR astep divN degs (map Some idxs) ns [0 ..< m] = Inr ns1"
    "length ns1 = length ns"
    "\<forall>i < length ns. ns1 ! (idxs ! i) =
        (if i < m then placed c ctr rad sR eR astep divN degs (length ns) i (ns ! (idxs ! i))
         else ns ! (idxs ! i))"
    by auto
  have m: "m < length ns" using Suc.prems by simp
  have ref: "idxs ! m < length ns" using assms(2,3) m by (metis lessThan_iff nth_mem)
  have at: "elemAt (map Some idxs) m = Some (Some (idxs ! m))"
    using m assms(3) by (simp add: elemAt_def)
  let ?ns2 = "ns1[idxs ! m := placed c ctr rad sR eR astep divN degs (length ns) m (ns1 ! (idxs ! m))]"
  have step: "placeNode c ctr rad sR eR astep divN degs (map Some idxs) ns1 m = Inr ?ns2"
    using at ref ns1(2) by (simp add: placeNode_def placed_def Let_def)
  have same: "ns1 ! (idxs ! m) = ns ! (idxs ! m)" using ns1(3) m by simp
  have "\<forall>i < length ns. ?ns2 ! (idxs ! i) =
          (if i < Suc m then placed c ctr rad sR eR astep divN degs (length ns) i (ns ! (idxs ! i))
           else ns ! (idxs ! i))"
  proof (intro allI impI)
    fix i assume i: "i < length ns"
    show "?ns2 ! (idxs ! i) =
          (if i < Suc m then placed c ctr rad sR eR astep divN degs (length ns) i (ns ! (idxs ! i))
           else ns ! (idxs ! i))"
    proof (cases "i = m")
      case True
      then show ?thesis using ref ns1(2) same by simp
    next
      case False
      then have "idxs ! i \<noteq> idxs ! m"
        using assms(1,3) i m by (simp add: nth_eq_iff_index_eq)
      then show ?thesis using ns1(3) i False by auto
    qed
  qed
  then show ?case
    using ns1(1,2) step by (simp add: placeAll_append)
qed


lemma resolveCenter_fields:
  "c_nodes (fst (resolveCenter e c)) = c_nodes c"
  "c_edges (fst (resolveCenter e c)) = c_edges c"
  "ordering (fst (resolveCenter e c)) = ordering c"
  "radius (fst (resolveCenter e c)) = radius c"
  "startRadius (fst (resolveCenter e c)) = startRadius c"
  "endRadius (fst (resolveCenter e c)) = endRadius c"
  "startAngle (fst (resolveCenter e c)) = startAngle c"
  "endAngle (fst (resolveCenter e c)) = endAngle c"
  "clockwise (fst (resolveCenter e c)) = clockwise c"
  "divisions (fst (resolveCenter e c)) = divisions c"
  "angleRatio (fst (resolveCenter e c)) = angleRatio c"
  by (simp_all add: resolveCenter_def Let_def)

lemma prepared_fields:
  "c_nodes (prepared e c) = c_nodes c"
  "c_edges (prepared e c) = c_edges c"
  "ordering (prepared e c) = ordering c"
  "radius (prepared e c) = radius c"
  "startRadius (prepared e c) = startRadius c"
  "endRadius (prepared e c) = endRadius c"
  "startAngle (prepared e c) = startAngle c"
  "endAngle (prepared e c) = endAngle c"
  "clockwise (prepared e c) = clockwise c"
  "divisions (prepared e c) = divisions c"
  "angleRatio (prepared e c) = angleRatio c"
  "c_nodeMap (prepared e c) = indexMap (map cid (c_nodes c))"
  "c_degrees (prepared e c)
     = getDegree (length (c_nodes c)) (indexMap (map cid (c_nodes c))) (c_edges c)"
  by (simp_all add: prepared_def Let_def resolveCenter_fields)

lemma getDegree_length: "length (getDegree n idx es) = n"
  by (simp add: getDegree_def)

lemma layoutOrder_refs:
  assumes "c_nodes c \<noteq> []"
    and "ordering c = Topology \<or> ordering c = TopologyDirected \<longrightarrow>
           distinct (map cid (c_nodes c)) \<and> list_all (knownEndsC (c_nodes c)) (c_edges c)"
  shows "\<exists>ns1 idxs. layoutOrder (prepared e c) = Inr (ns1, map Some idxs)
           \<and> length ns1 = length (c_nodes c)
           \<and> distinct idxs \<and> set idxs = {..< length (c_nodes c)}
           \<and> (ordering c = Degree \<longrightarrow>
                 ns1 = fst (degreeOrdering (c_nodes c) (c_degrees (prepared e c)))
               \<and> map Some idxs = snd (degreeOrdering (c_nodes c) (c_degrees (prepared e c))))"
proof (cases "ordering c")
  case Topology
  then obtain idxs where
    "topologyOrdering False (c_nodes c) (c_edges c) (indexMap (map cid (c_nodes c)))
       (c_degrees (prepared e c)) = Inr (map Some idxs)"
    "distinct idxs" "set idxs = {..< length (c_nodes c)}"
    using topologyOrdering_refs[OF assms(1), of "c_edges c" False] assms(2) by blast
  then show ?thesis
    using Topology by (simp add: layoutOrder_def prepared_fields)
next
  case TopologyDirected
  then obtain idxs where
    "topologyOrdering True (c_nodes c) (c_edges c) (indexMap (map cid (c_nodes c)))
       (c_degrees (prepared e c)) = Inr (map Some idxs)"
    "distinct idxs" "set idxs = {..< length (c_nodes c)}"
    using topologyOrdering_refs[OF assms(1), of "c_edges c" True] assms(2) by blast
  then show ?thesis
    using TopologyDirected by (simp add: layoutOrder_def prepared_fields)
next
  case Degree
  let ?degs = "c_degrees (prepared e c)"
  let ?idxs = "sort_key (\<lambda>i. ?degs ! i) [0 ..< length (c_nodes c)]"
  have len: "length ?degs = length (c_nodes c)"
    by (simp add: prepared_fields getDegree_length)
  have "snd (degreeOrdering (c_nodes c) ?degs) = map Some ?idxs"
    using degreeOrdering_refs[OF len] .
  moreover have "distinct ?idxs" by (simp add: distinct_sort)
  moreover have "set ?idxs = {..< length (c_nodes c)}" by (simp add: atLeast_upt)
  moreover have "layoutOrder (prepared e c)
      = Inr (fst (degreeOrdering (c_nodes c) ?degs), snd (degreeOrdering (c_nodes c) ?degs))"
    using Degree by (simp add: layoutOrder_def prepared_fields)
  ultimately show ?thesis
    using degreeOrdering_length[of "c_nodes c" ?degs] by (metis (no_types, lifting))
next
  case NoOrdering
  have "distinct [0 ..< length (c_nodes c)]" "set [0 ..< length (c_nodes c)] = {..< length (c_nodes c)}"
    by (simp_all add: atLeast_upt)
  then show ?thesis
    using NoOrdering by (auto simp: layoutOrder_def prepared_fields)
qed

text \<open>What \<^verbatim>\<open>execute\<close> returns for two or more nodes on a well-formed graph.\<close>

lemma c_execute_placed:
  assumes "2 \<le> length (c_nodes c)"
    and "ordering c = Topology \<or> ordering c = TopologyDirected \<longrightarrow>
           distinct (map cid (c_nodes c)) \<and> list_all (knownEndsC (c_nodes c)) (c_edges c)"
  shows "\<exists>ns1 idxs ns2.
           layoutOrder (prepared e c) = Inr (ns1, map Some idxs)
         \<and> distinct idxs \<and> set idxs = {..< length (c_nodes c)}
         \<and> c_execute e c = Inr (c_fireLayoutEnd ((prepared e c)\<lparr>c_nodes := ns2\<rparr>), Some (map Some idxs))
         \<and> length ns2 = length (c_nodes c)
         \<and> (\<forall>i < length (c_nodes c). ns2 ! (idxs ! i) =
               placed (prepared e c) (snd (resolveCenter e c)) (fst (radii (prepared e c)))
                 (fst (snd (radii (prepared e c)))) (snd (snd (radii (prepared e c))))
                 ((endAngle c - startAngle c) / real (length (c_nodes c)) * angleRatio c)
                 \<lceil>real (length (c_nodes c)) / divisions c\<rceil>
                 (c_degrees (prepared e c)) (length (c_nodes c)) i (ns1 ! (idxs ! i)))"
proof -
  let ?n = "length (c_nodes c)"
  have ne: "c_nodes c \<noteq> []" using assms(1) by auto
  obtain ns1 idxs where ord: "layoutOrder (prepared e c) = Inr (ns1, map Some idxs)"
    "length ns1 = ?n" "distinct idxs" "set idxs = {..< ?n}"
    using layoutOrder_refs[OF ne assms(2)] by blast
  have li: "length idxs = length ns1"
    using ord(2,3,4) by (metis card_lessThan distinct_card)
  obtain ns2 where ns2:
    "placeAll (prepared e c) (snd (resolveCenter e c)) (fst (radii (prepared e c)))
        (fst (snd (radii (prepared e c)))) (snd (snd (radii (prepared e c))))
        ((endAngle c - startAngle c) / real ?n * angleRatio c)
        \<lceil>real ?n / divisions c\<rceil> (c_degrees (prepared e c)) (map Some idxs) ns1 [0 ..< ?n]
      = Inr ns2"
    "length ns2 = length ns1"
    "\<forall>i < length ns1. ns2 ! (idxs ! i) =
        (if i < ?n then placed (prepared e c) (snd (resolveCenter e c)) (fst (radii (prepared e c)))
                 (fst (snd (radii (prepared e c)))) (snd (snd (radii (prepared e c))))
                 ((endAngle c - startAngle c) / real ?n * angleRatio c)
                 \<lceil>real ?n / divisions c\<rceil>
                 (c_degrees (prepared e c)) (length ns1) i (ns1 ! (idxs ! i))
         else ns1 ! (idxs ! i))"
    using placeAll_prefix[of idxs ns1 ?n] ord(2,3,4) li by (metis order_refl)
  have n: "?n \<noteq> 0" "?n \<noteq> 1" using assms(1) by auto
  have "c_execute e c = Inr (c_fireLayoutEnd ((prepared e c)\<lparr>c_nodes := ns2\<rparr>), Some (map Some idxs))"
    using n ord(1) ns2(1) by (simp add: c_execute_def Let_def prepared_fields)
  then show ?thesis using ord ns2(2,3) by auto
qed








lemma three_list:
  assumes "length xs = 3"
  shows "xs = [xs ! 0, xs ! 1, xs ! 2]"
proof (rule nth_equalityI)
  show "length xs = length [xs ! 0, xs ! 1, xs ! 2]" using assms by simp
next
  fix i assume "i < length xs"
  then have "i = 0 \<or> i = 1 \<or> i = 2" using assms by arith
  then show "xs ! i = [xs ! 0, xs ! 1, xs ! 2] ! i" by (elim disjE) simp_all
qed





subsection \<open>The weight field\<close>

text \<open>
  C5 says that every node gets a \<^verbatim>\<open>weight\<close> equal to its own degree. The placing loop
  writes \<^verbatim>\<open>layoutNodes[i].weight = degrees[i]\<close>: the degree of the node at input index
  \<open>i\<close> goes to the node at position \<open>i\<close> of the order. With the ordering by degree, a
  node \<open>a\<close> joined to \<open>b\<close> and to \<open>c\<close> has the degrees 2, 1, 1 and the order b, c, a;
  the weights of a, b, c become 1, 2, 1.
\<close>

theorem weight_not_degree:
  "getDegree 3 (indexMap (map cid (c_nodes star))) (c_edges star) = [2, 1, 1]
   \<and> weights (c_execute browser star) = [Some 1, Some 2, Some 1]"
proof -
  have fields: "length (c_nodes star) = 3" "ordering star = Degree"
    "c_nodes star = [cnodeOf ''a'', cnodeOf ''b'', cnodeOf ''c'']"
    "c_edges star = [\<lparr>source = ''a'', target = ''b''\<rparr>, \<lparr>source = ''a'', target = ''c''\<rparr>]"
    by (simp_all add: star_def c_initial_def)
  have "getDegree 3 (indexMap (map cid [cnodeOf ''a'', cnodeOf ''b'', cnodeOf ''c'']))
          [\<lparr>source = ''a'', target = ''b''\<rparr>, \<lparr>source = ''a'', target = ''c''\<rparr>] = [2, 1, 1]"
    by code_simp
  then have degs: "getDegree 3 (indexMap (map cid (c_nodes star))) (c_edges star) = [2, 1, 1]"
    using fields(3,4) by simp
  have pd: "c_degrees (prepared browser star) = [2, 1, 1]"
    using degs fields(1) by (simp add: prepared_fields)
  have pre: "2 \<le> length (c_nodes star)"
    "ordering star = Topology \<or> ordering star = TopologyDirected \<longrightarrow>
       distinct (map cid (c_nodes star)) \<and> list_all (knownEndsC (c_nodes star)) (c_edges star)"
    using fields by simp_all
  obtain ns1 idxs ns2 where ex:
    "layoutOrder (prepared browser star) = Inr (ns1, map Some idxs)"
    "c_execute browser star
       = Inr (c_fireLayoutEnd ((prepared browser star)\<lparr>c_nodes := ns2\<rparr>), Some (map Some idxs))"
    "length ns2 = length (c_nodes star)"
    "\<forall>i < length (c_nodes star). ns2 ! (idxs ! i) =
               placed (prepared browser star) (snd (resolveCenter browser star))
                 (fst (radii (prepared browser star)))
                 (fst (snd (radii (prepared browser star))))
                 (snd (snd (radii (prepared browser star))))
                 ((endAngle star - startAngle star) / real (length (c_nodes star)) * angleRatio star)
                 \<lceil>real (length (c_nodes star)) / divisions star\<rceil>
                 (c_degrees (prepared browser star)) (length (c_nodes star)) i
                 (ns1 ! (idxs ! i))"
    using c_execute_placed[OF pre, of browser] by blast
  have "snd (degreeOrdering [cnodeOf ''a'', cnodeOf ''b'', cnodeOf ''c''] [2, 1, 1])
          = [Some 1, Some 2, Some 0]"
    by code_simp
  then have "layoutOrder (prepared browser star)
          = Inr (fst (degreeOrdering (c_nodes star) [2, 1, 1]), map Some [1, 2, 0])"
    using fields(2,3) pd by (simp add: layoutOrder_def prepared_fields prod_eq_iff)
  then have "map Some idxs = map Some [1, 2, 0]" using ex(1) by simp
  then have idxs: "idxs = [1, 2, 0]" by (simp only: inj_map_eq_map[OF inj_Some])
  have i0: "(0 :: nat) < length (c_nodes star)" and i1: "(1 :: nat) < length (c_nodes star)"
    and i2: "(2 :: nat) < length (c_nodes star)"
    using fields(1) by simp_all
  have w: "weight (ns2 ! 1) = Some 2" "weight (ns2 ! 2) = Some 1" "weight (ns2 ! 0) = Some 1"
    using ex(4)[rule_format, OF i0] ex(4)[rule_format, OF i1] ex(4)[rule_format, OF i2] idxs pd
    by (simp_all add: placed_def elemAt_def)
  have "length ns2 = 3" using ex(3) fields(1) by simp
  then have "ns2 = [ns2 ! 0, ns2 ! 1, ns2 ! 2]" by (rule three_list)
  then have "map weight ns2 = [weight (ns2 ! 0), weight (ns2 ! 1), weight (ns2 ! 2)]"
    by (metis (no_types, lifting) list.simps(8,9))
  then have "map weight ns2 = [Some 1, Some 2, Some 1]" using w by (simp only:)
  then have "weights (c_execute browser star) = [Some 1, Some 2, Some 1]"
    using ex(2) by (simp add: weights_def c_fireLayoutEnd_def)
  then show ?thesis using degs by simp
qed

end
